theory Spec2Isabelle
  imports Main "HOL-Library.Sublist"
begin

section \<open>Shared modelling conventions\<close>

text \<open>
  The managers of this repository keep their data in small JSON files. A file at a fixed
  path is in one of three conditions as far as the code can tell: it does not exist
  (\<open>fs.existsSync\<close> is false, \<open>readFile\<close> fails), it exists but \<open>JSON.parse\<close> throws
  on its text, or it exists and parses to a value. \<open>JSON.stringify\<close> followed by
  \<open>JSON.parse\<close> gives the value back, so a successful write leaves \<open>Holds v\<close>.
  The parsed value is cast to its TypeScript type without a check; except for the agent
  state, which is read as a raw JSON value, a file that parses is taken to have the
  shape of that type. Wall-clock readings (\<open>new Date()\<close>) are passed in as a
  parameter \<open>now\<close>.
\<close>

datatype 'a json_file = Missing | Malformed | Holds 'a

type_synonym date = nat

datatype error =
    ENOENT
  | SyntaxError
  | TypeError
  | WriteFailed
  | FeatureNotFound string
  | VerificationIncomplete

section \<open>Feature backlog: src/core/feature-manager.ts\<close>

datatype FeatureCategory =
  Functional | Ui | Ux | Performance | Security | Accessibility | Integration | ErrorHandling

record Feature =
  feature_id :: string
  feature_category :: FeatureCategory
  feature_description :: string
  feature_steps :: "string list"
  feature_passes :: bool
  feature_priority :: int
  dependencies :: "string list option"
  verificationNotes :: "string option"
  lastAttemptedAt :: "date option"
  completedAt :: "date option"

record FeatureList =
  projectName :: string
  createdAt :: date
  updatedAt :: date
  totalFeatures :: nat
  completedFeatures :: nat
  features :: "Feature list"

record VerificationStep =
  step :: string
  passed :: bool
  evidence :: "string option"

text \<open>
  The state a \<open>FeatureManager\<close> works on: its private cache \<open>featureList\<close>, the file
  \<open>feature_list.json\<close> under the project root, whether writing that file succeeds, and
  \<open>path.basename(projectRoot)\<close>.
\<close>

record FeatureManager =
  featureList :: "FeatureList option"
  featureListFile :: "FeatureList json_file"
  featureListWritable :: bool
  projectBasename :: string

text \<open>\<open>loadFeatureList\<close>: the cache if set, else read and parse the file and cache it.
  Neither the read nor the parse is guarded, so both failures propagate.\<close>

definition loadFeatureList :: "FeatureManager \<Rightarrow> (error + FeatureList) \<times> FeatureManager" where
  "loadFeatureList m =
     (case featureList m of
        Some l \<Rightarrow> (Inr l, m)
      | None \<Rightarrow>
          (case featureListFile m of
             Missing \<Rightarrow> (Inl ENOENT, m)
           | Malformed \<Rightarrow> (Inl SyntaxError, m)
           | Holds l \<Rightarrow> (Inr l, m\<lparr>featureList := Some l\<rparr>)))"

text \<open>\<open>areDependenciesMet\<close>: the loop over \<open>feature.dependencies\<close>; each id is looked up
  with \<open>list.features.find\<close> (first match) and must name a passing feature. The list it
  loads is the one its caller has just loaded and cached.\<close>

fun dependenciesLoop :: "Feature list \<Rightarrow> string list \<Rightarrow> bool" where
  "dependenciesLoop fs [] = True"
| "dependenciesLoop fs (depId # rest) =
     (case List.find (\<lambda>f. feature_id f = depId) fs of
        None \<Rightarrow> False
      | Some depFeature \<Rightarrow>
          if \<not> feature_passes depFeature then False else dependenciesLoop fs rest)"

definition areDependenciesMet :: "Feature list \<Rightarrow> Feature \<Rightarrow> bool" where
  "areDependenciesMet fs feature =
     (case dependencies feature of
        None \<Rightarrow> True
      | Some deps \<Rightarrow> if length deps = 0 then True else dependenciesLoop fs deps)"

text \<open>The \<open>for\<close> loop of \<open>getNextIncompleteFeature\<close> over the sorted incomplete features.\<close>

fun firstWithDependenciesMet :: "Feature list \<Rightarrow> Feature list \<Rightarrow> Feature option" where
  "firstWithDependenciesMet fs [] = None"
| "firstWithDependenciesMet fs (feature # rest) =
     (if areDependenciesMet fs feature then Some feature
      else firstWithDependenciesMet fs rest)"

text \<open>
  \<open>incompleteFeatures\<close>: \<open>filter\<close> builds a fresh array and \<open>Array.prototype.sort\<close> with
  the comparator \<open>a.priority - b.priority\<close> sorts it; the sort is stable (ECMAScript
  2019), which is what insertion by key computes.
\<close>

definition incompleteFeatures :: "Feature list \<Rightarrow> Feature list" where
  "incompleteFeatures fs = sort_key feature_priority (filter (\<lambda>f. \<not> feature_passes f) fs)"

text \<open>The body of \<open>getNextIncompleteFeature\<close> once the list is loaded.\<close>

definition nextIncompleteOf :: "Feature list \<Rightarrow> Feature option" where
  "nextIncompleteOf fs =
     (let inc = incompleteFeatures fs in
      if length inc = 0 then None
      else (case firstWithDependenciesMet fs inc of
              Some feature \<Rightarrow> Some feature
            | None \<Rightarrow> Some (inc ! 0)))"

definition getNextIncompleteFeature ::
  "FeatureManager \<Rightarrow> (error + Feature option) \<times> FeatureManager" where
  "getNextIncompleteFeature m =
     (case loadFeatureList m of
        (Inl e, m') \<Rightarrow> (Inl e, m')
      | (Inr l, m') \<Rightarrow> (Inr (nextIncompleteOf (features l)), m'))"

definition getIncompleteFeatureCount ::
  "FeatureManager \<Rightarrow> (error + nat) \<times> FeatureManager" where
  "getIncompleteFeatureCount m =
     (case loadFeatureList m of
        (Inl e, m') \<Rightarrow> (Inl e, m')
      | (Inr l, m') \<Rightarrow> (Inr (length (filter (\<lambda>f. \<not> feature_passes f) (features l))), m'))"

text \<open>\<open>saveFeatureList\<close>: builds a fresh \<open>FeatureList\<close> around the features, writes it
  (unguarded: a failing write propagates) and then caches it.\<close>

definition saveFeatureList ::
  "date \<Rightarrow> Feature list \<Rightarrow> FeatureManager \<Rightarrow> (error + unit) \<times> FeatureManager" where
  "saveFeatureList now fs m =
     (let fl = \<lparr> projectName = projectBasename m, createdAt = now, updatedAt = now,
                 totalFeatures = length fs,
                 completedFeatures = length (filter feature_passes fs),
                 features = fs \<rparr>
      in if featureListWritable m
         then (Inr (), m\<lparr>featureListFile := Holds fl, featureList := Some fl\<rparr>)
         else (Inl WriteFailed, m))"

text \<open>Assignment to the fields of the object that \<open>find\<close> returned: the first element
  satisfying the predicate is replaced, the rest of the array is untouched.\<close>

fun updateFirst :: "('a \<Rightarrow> bool) \<Rightarrow> ('a \<Rightarrow> 'a) \<Rightarrow> 'a list \<Rightarrow> 'a list" where
  "updateFirst P g [] = []"
| "updateFirst P g (x # xs) = (if P x then g x # xs else x # updateFirst P g xs)"

text \<open>\<open>Array.prototype.join\<close>.\<close>

fun join :: "string \<Rightarrow> string list \<Rightarrow> string" where
  "join sep [] = []"
| "join sep [s] = s"
| "join sep (s # t # rest) = s @ sep @ join sep (t # rest)"

definition stepNote :: "VerificationStep \<Rightarrow> string" where
  "stepNote s = step s @ '': '' @ (if passed s then ''PASS'' else ''FAIL'')"

definition verificationNotesOf :: "VerificationStep list \<Rightarrow> string" where
  "verificationNotesOf verificationSteps = join [CHR 0x0A] (map stepNote verificationSteps)"

definition markFeatureComplete ::
  "date \<Rightarrow> string \<Rightarrow> VerificationStep list \<Rightarrow> FeatureManager
    \<Rightarrow> (error + unit) \<times> FeatureManager" where
  "markFeatureComplete now featureId verificationSteps m =
     (case loadFeatureList m of
        (Inl e, m') \<Rightarrow> (Inl e, m')
      | (Inr l, m') \<Rightarrow>
          (case List.find (\<lambda>f. feature_id f = featureId) (features l) of
             None \<Rightarrow> (Inl (FeatureNotFound featureId), m')
           | Some feature \<Rightarrow>
               if \<not> list_all passed verificationSteps then (Inl VerificationIncomplete, m')
               else
                 (let fs' = updateFirst (\<lambda>f. feature_id f = featureId)
                              (\<lambda>f. f\<lparr> feature_passes := True,
                                       completedAt := Some now,
                                       verificationNotes :=
                                         Some (verificationNotesOf verificationSteps) \<rparr>)
                              (features l);
                      l' = l\<lparr> features := fs',
                               completedFeatures := length (filter feature_passes fs'),
                               updatedAt := now \<rparr>
                  in saveFeatureList now fs' (m'\<lparr>featureList := Some l'\<rparr>))))"

section \<open>Test ledger: src/core/test-manager.ts\<close>

datatype TestCategory = TestFunctional | TestStyle | TestAccessibility | TestPerformance | TestSecurity

datatype TestPriority = Critical | High | Medium | Low

record TestCase =
  test_id :: string
  test_category :: TestCategory
  test_description :: string
  test_steps :: "string list"
  test_passes :: bool
  test_priority :: TestPriority
  verified_at :: "date option"
  screenshot_path :: "string option"
  console_log_path :: "string option"
  test_notes :: "string option"

record TestSuite =
  version :: string
  created_at :: date
  updated_at :: date
  total_tests :: nat
  passed_tests :: nat
  tests :: "TestCase list"

record Evidence =
  evidence_screenshot_path :: string
  evidence_console_log_path :: string
  evidence_notes :: "string option"

text \<open>
  What a \<open>TestManager\<close> sees of the disk: \<open>tests.json\<close> (here \<open>Malformed\<close> stands for
  every case in which the guarded read-and-parse throws), whether the write-then-rename
  of \<open>saveSuite\<close> succeeds, and the other paths, each absent, a directory or a file with
  its text. Evidence paths are looked up among the other paths.
\<close>

datatype fs_entry = Directory | File string

record TestManager =
  testsFile :: "TestSuite json_file"
  testsWritable :: bool
  paths :: "string \<Rightarrow> fs_entry option"

definition existsSync :: "TestManager \<Rightarrow> string \<Rightarrow> bool" where
  "existsSync d p = (paths d p \<noteq> None)"

datatype fs_error = NoSuchFile | IsDirectory

definition readFileSync :: "TestManager \<Rightarrow> string \<Rightarrow> fs_error + string" where
  "readFileSync d p =
     (case paths d p of
        None \<Rightarrow> Inl NoSuchFile
      | Some Directory \<Rightarrow> Inl IsDirectory
      | Some (File content) \<Rightarrow> Inr content)"

text \<open>\<open>String.prototype.includes\<close>: the needle occurs at some position of the text.\<close>

fun str_includes :: "string \<Rightarrow> string \<Rightarrow> bool" where
  "str_includes [] needle = (needle = [])"
| "str_includes (c # cs) needle = (prefix needle (c # cs) \<or> str_includes cs needle)"

text \<open>\<open>saveSuite\<close> refreshes the three derived fields of the suite object it is given and
  replaces the file; a failing write is caught and logged, so the caller never sees it.\<close>

definition saveSuite :: "date \<Rightarrow> TestSuite \<Rightarrow> TestManager \<Rightarrow> TestSuite \<times> TestManager" where
  "saveSuite now suite d =
     (let suite' = suite\<lparr> updated_at := now,
                          total_tests := length (tests suite),
                          passed_tests := length (filter test_passes (tests suite)) \<rparr>
      in (suite', if testsWritable d then d\<lparr>testsFile := Holds suite'\<rparr> else d))"

definition initialize :: "date \<Rightarrow> TestManager \<Rightarrow> TestSuite \<times> TestManager" where
  "initialize now d =
     saveSuite now \<lparr> version = ''1.0.0'', created_at = now, updated_at = now,
                     total_tests = 0, passed_tests = 0, tests = [] \<rparr> d"

definition loadSuite :: "date \<Rightarrow> TestManager \<Rightarrow> TestSuite \<times> TestManager" where
  "loadSuite now d =
     (case testsFile d of
        Missing \<Rightarrow> initialize now d
      | Malformed \<Rightarrow> initialize now d
      | Holds suite \<Rightarrow> (suite, d))"

definition markTestPassing ::
  "date \<Rightarrow> string \<Rightarrow> Evidence \<Rightarrow> TestManager \<Rightarrow> (fs_error + bool) \<times> TestManager" where
  "markTestPassing now testId ev d =
     (case loadSuite now d of (suite, d1) \<Rightarrow>
        (case List.find (\<lambda>t. test_id t = testId) (tests suite) of
           None \<Rightarrow> (Inr False, d1)
         | Some test \<Rightarrow>
             if \<not> existsSync d1 (evidence_screenshot_path ev) then (Inr False, d1)
             else if \<not> existsSync d1 (evidence_console_log_path ev) then (Inr False, d1)
             else
               (case readFileSync d1 (evidence_console_log_path ev) of
                  Inl e \<Rightarrow> (Inl e, d1)
                | Inr consoleContent \<Rightarrow>
                    if str_includes consoleContent ''ERROR'' \<or> str_includes consoleContent ''FAIL''
                    then (Inr False, d1)
                    else
                      (let suite' = suite\<lparr> tests :=
                             updateFirst (\<lambda>t. test_id t = testId)
                               (\<lambda>t. t\<lparr> test_passes := True,
                                        verified_at := Some now,
                                        screenshot_path := Some (evidence_screenshot_path ev),
                                        console_log_path := Some (evidence_console_log_path ev),
                                        test_notes := evidence_notes ev \<rparr>)
                               (tests suite) \<rparr>
                       in (Inr True, snd (saveSuite now suite' d1))))))"

definition getTest :: "date \<Rightarrow> string \<Rightarrow> TestManager \<Rightarrow> TestCase option \<times> TestManager" where
  "getTest now testId d =
     (case loadSuite now d of (suite, d1) \<Rightarrow>
        (List.find (\<lambda>t. test_id t = testId) (tests suite), d1))"

definition getFailingTests :: "date \<Rightarrow> TestManager \<Rightarrow> TestCase list \<times> TestManager" where
  "getFailingTests now d =
     (case loadSuite now d of (suite, d1) \<Rightarrow>
        (filter (\<lambda>t. \<not> test_passes t) (tests suite), d1))"

fun firstOfPriority :: "TestPriority list \<Rightarrow> TestCase list \<Rightarrow> TestCase option" where
  "firstOfPriority [] ts = None"
| "firstOfPriority (p # ps) ts =
     (case List.find (\<lambda>t. test_priority t = p) ts of
        Some t \<Rightarrow> Some t
      | None \<Rightarrow> firstOfPriority ps ts)"

definition getNextTest :: "date \<Rightarrow> TestManager \<Rightarrow> TestCase option \<times> TestManager" where
  "getNextTest now d =
     (case loadSuite now d of (suite, d1) \<Rightarrow>
        (let failingTests = filter (\<lambda>t. \<not> test_passes t) (tests suite) in
         if length failingTests = 0 then None
         else (case firstOfPriority [Critical, High, Medium, Low] failingTests of
                 Some t \<Rightarrow> Some t
               | None \<Rightarrow> Some (failingTests ! 0)),
         d1))"

text \<open>The summary of \<open>getProgressSummary\<close>, without its \<open>percentage\<close> field (a rounded
  floating-point quotient); the two breakdowns are the counters the loop accumulates.\<close>

record ProgressSummary =
  summary_total :: nat
  summary_passed :: nat
  summary_failed :: nat
  byCategory :: "TestCategory \<Rightarrow> nat \<times> nat"
  byPriority :: "TestPriority \<Rightarrow> nat \<times> nat"

definition getProgressSummary :: "date \<Rightarrow> TestManager \<Rightarrow> ProgressSummary \<times> TestManager" where
  "getProgressSummary now d =
     (case loadSuite now d of (suite, d1) \<Rightarrow>
        (let total = length (tests suite);
             passed = length (filter test_passes (tests suite))
         in \<lparr> summary_total = total, summary_passed = passed,
              summary_failed = total - passed,
              byCategory = (\<lambda>c. (length (filter (\<lambda>t. test_category t = c) (tests suite)),
                length (filter (\<lambda>t. test_category t = c \<and> test_passes t) (tests suite)))),
              byPriority = (\<lambda>p. (length (filter (\<lambda>t. test_priority t = p) (tests suite)),
                length (filter (\<lambda>t. test_priority t = p \<and> test_passes t) (tests suite)))) \<rparr>,
         d1))"

section \<open>Human backlog: src/core/backlog-manager.ts\<close>

text \<open>
  \<open>priority\<close> and \<open>status\<close> are strings, as in the file: the TypeScript unions are not
  checked when \<open>human_backlog.json\<close> is parsed, and \<open>getNextItem\<close> has a last branch
  for items whose priority is none of the four names.
\<close>

datatype BacklogItemType = Bug | FeatureRequest | Idea

datatype Author = Agent | Human

record BacklogComment =
  author :: Author
  comment_timestamp :: date
  comment_text :: string

record BacklogItem =
  item_id :: string
  item_type :: BacklogItemType
  item_priority :: string
  item_status :: string
  item_description :: string
  details :: string
  comments :: "BacklogComment list"
  added :: date
  completed :: bool
  completedDate :: "date option"
  github_issue :: "nat option"
  vote_count :: "nat option"

record BacklogManager =
  backlogFile :: "BacklogItem list json_file"
  backlogWritable :: bool

definition loadBacklog :: "BacklogManager \<Rightarrow> BacklogItem list" where
  "loadBacklog d =
     (case backlogFile d of
        Missing \<Rightarrow> []
      | Malformed \<Rightarrow> []
      | Holds backlog \<Rightarrow> backlog)"

definition saveBacklog :: "BacklogItem list \<Rightarrow> BacklogManager \<Rightarrow> BacklogManager" where
  "saveBacklog backlog d = (if backlogWritable d then d\<lparr>backlogFile := Holds backlog\<rparr> else d)"

text \<open>\<open>addItem\<close>; \<open>newId\<close> is \<open>Date.now().toString()\<close>.\<close>

definition addItem ::
  "string \<Rightarrow> date \<Rightarrow> BacklogItemType \<Rightarrow> string \<Rightarrow> string \<Rightarrow> string \<Rightarrow> nat option
     \<Rightarrow> BacklogManager \<Rightarrow> BacklogItem \<times> BacklogManager" where
  "addItem newId now type priority description dtls issue d =
     (let backlog = loadBacklog d;
          item = \<lparr> item_id = newId, item_type = type, item_priority = priority,
                   item_status = ''backlog'', item_description = description,
                   details = dtls, comments = [], added = now, completed = False,
                   completedDate = None, github_issue = issue, vote_count = Some 0 \<rparr>
      in (item, saveBacklog (backlog @ [item]) d))"

definition updateStatus ::
  "date \<Rightarrow> string \<Rightarrow> string \<Rightarrow> BacklogManager \<Rightarrow> bool \<times> BacklogManager" where
  "updateStatus now ident status d =
     (let backlog = loadBacklog d in
      case List.find (\<lambda>i. item_id i = ident) backlog of
        None \<Rightarrow> (False, d)
      | Some item \<Rightarrow>
          (True,
           saveBacklog
             (updateFirst (\<lambda>i. item_id i = ident)
                (\<lambda>i. if status = ''done''
                      then i\<lparr> item_status := status, completed := True,
                               completedDate := Some now \<rparr>
                      else i\<lparr> item_status := status \<rparr>)
                backlog) d))"

definition markComplete :: "date \<Rightarrow> string \<Rightarrow> BacklogManager \<Rightarrow> bool \<times> BacklogManager" where
  "markComplete now ident d = updateStatus now ident ''done'' d"

definition markInProgress :: "date \<Rightarrow> string \<Rightarrow> BacklogManager \<Rightarrow> bool \<times> BacklogManager" where
  "markInProgress now ident d = updateStatus now ident ''in_progress'' d"

definition markBlocked ::
  "date \<Rightarrow> string \<Rightarrow> string \<Rightarrow> BacklogManager \<Rightarrow> bool \<times> BacklogManager" where
  "markBlocked now ident reason d =
     (let backlog = loadBacklog d in
      case List.find (\<lambda>i. item_id i = ident) backlog of
        None \<Rightarrow> (False, d)
      | Some item \<Rightarrow>
          (True,
           saveBacklog
             (updateFirst (\<lambda>i. item_id i = ident)
                (\<lambda>i. i\<lparr> item_status := ''blocked'',
                         comments := comments i @
                           [\<lparr> author = Agent, comment_timestamp = now,
                              comment_text = ''Blocked: '' @ reason \<rparr>] \<rparr>)
                backlog) d))"

definition addComment ::
  "date \<Rightarrow> string \<Rightarrow> Author \<Rightarrow> string \<Rightarrow> BacklogManager \<Rightarrow> bool \<times> BacklogManager" where
  "addComment now ident who txt d =
     (let backlog = loadBacklog d in
      case List.find (\<lambda>i. item_id i = ident) backlog of
        None \<Rightarrow> (False, d)
      | Some item \<Rightarrow>
          (True,
           saveBacklog
             (updateFirst (\<lambda>i. item_id i = ident)
                (\<lambda>i. i\<lparr> comments := comments i @
                           [\<lparr> author = who, comment_timestamp = now, comment_text = txt \<rparr>] \<rparr>)
                backlog) d))"

definition priorityOrder :: "string list" where
  "priorityOrder = [''critical'', ''high'', ''medium'', ''low'']"

text \<open>The two \<open>for (const priority of priorityOrder)\<close> scans of \<open>getNextItem\<close>, which
  differ in the predicate handed to \<open>find\<close>.\<close>

fun priorityScan ::
  "(string \<Rightarrow> BacklogItem \<Rightarrow> bool) \<Rightarrow> string list \<Rightarrow> BacklogItem list \<Rightarrow> BacklogItem option" where
  "priorityScan P [] incomplete = None"
| "priorityScan P (priority # rest) incomplete =
     (case List.find (P priority) incomplete of
        Some item \<Rightarrow> Some item
      | None \<Rightarrow> priorityScan P rest incomplete)"

definition getNextItem :: "BacklogManager \<Rightarrow> BacklogItem option" where
  "getNextItem d =
     (let backlog = loadBacklog d;
          incomplete = filter (\<lambda>item. \<not> completed item) backlog
      in if length incomplete = 0 then None
         else
           (case List.find (\<lambda>item. item_status item = ''in_progress'') incomplete of
              Some inProgress \<Rightarrow> Some inProgress
            | None \<Rightarrow>
                (case priorityScan
                        (\<lambda>priority i. item_priority i = priority \<and> item_status i = ''backlog'')
                        priorityOrder incomplete of
                   Some item \<Rightarrow> Some item
                 | None \<Rightarrow>
                     (case priorityScan (\<lambda>priority i. item_priority i = priority)
                             priorityOrder incomplete of
                        Some item \<Rightarrow> Some item
                      | None \<Rightarrow> Some (incomplete ! 0)))))"

section \<open>Agent state: src/core/state-manager.ts\<close>

text \<open>
  \<open>readState\<close> casts whatever \<open>JSON.parse\<close> returns to \<open>AgentStateData\<close> without a
  check, so the model works on JSON values. An object is the list of its properties, each
  key once. Numbers are integers here; only their truthiness matters to \<open>readState\<close>.
\<close>

datatype json =
    JNull
  | JBool bool
  | JNum int
  | JStr string
  | JArr "json list"
  | JObj "(string \<times> json) list"

text \<open>Property read \<open>v.k\<close>: a \<open>TypeError\<close> on \<open>null\<close>, \<open>undefined\<close> (here \<open>None\<close>) on a
  primitive, on an array and on an object without the key.\<close>

definition getProp :: "json \<Rightarrow> string \<Rightarrow> error + json option" where
  "getProp v k =
     (case v of
        JNull \<Rightarrow> Inl TypeError
      | JObj props \<Rightarrow> Inr (map_of props k)
      | _ \<Rightarrow> Inr None)"

fun setField :: "string \<Rightarrow> json \<Rightarrow> (string \<times> json) list \<Rightarrow> (string \<times> json) list" where
  "setField k v [] = [(k, v)]"
| "setField k v ((k', v') # rest) =
     (if k' = k then (k, v) # rest else (k', v') # setField k v rest)"

text \<open>Property write \<open>v.k = x\<close> (strict mode: a \<open>TypeError\<close> unless \<open>v\<close> is an object).\<close>

definition setProp :: "json \<Rightarrow> string \<Rightarrow> json \<Rightarrow> error + json" where
  "setProp v k x =
     (case v of
        JObj props \<Rightarrow> Inr (JObj (setField k x props))
      | _ \<Rightarrow> Inl TypeError)"

text \<open>The operand test of \<open>!x\<close>: \<open>undefined\<close>, \<open>null\<close>, \<open>false\<close>, \<open>0\<close> and the empty
  string are falsy, everything else is truthy.\<close>

fun falsy :: "json option \<Rightarrow> bool" where
  "falsy None = True"
| "falsy (Some JNull) = True"
| "falsy (Some (JBool b)) = (\<not> b)"
| "falsy (Some (JNum n)) = (n = 0)"
| "falsy (Some (JStr s)) = (s = [])"
| "falsy (Some (JArr _)) = False"
| "falsy (Some (JObj _)) = False"

definition VALID_STATES :: "string list" where
  "VALID_STATES = [''continuous'', ''run_once'', ''run_cleanup'', ''pause'', ''terminated'']"

text \<open>\<open>VALID_STATES.has(x)\<close>: a \<open>Set\<close> of strings holds no value of another type.\<close>

fun validState :: "json option \<Rightarrow> bool" where
  "validState (Some (JStr s)) = (s \<in> set VALID_STATES)"
| "validState _ = False"

text \<open>The record built in three places of \<open>readState\<close>; \<open>stamp\<close> is
  \<open>getUtcTimestamp()\<close>.\<close>

definition defaultState :: "string \<Rightarrow> string \<Rightarrow> json" where
  "defaultState stamp note =
     JObj [(''desired_state'', JStr ''pause''), (''current_state'', JStr ''pause''),
           (''timestamp'', JStr stamp), (''setBy'', JStr ''agent''), (''note'', JStr note)]"

text \<open>Decimal rendering of a natural number, as a template string shows a counter.\<close>

function decimal :: "nat \<Rightarrow> string" where
  "decimal n =
     (if n < 10 then [''0123456789'' ! n]
      else decimal (n div 10) @ [''0123456789'' ! (n mod 10)])"
  by pat_completeness auto
termination
  by (relation "measure (\<lambda>n. n)") auto

declare decimal.simps [simp del]

text \<open>
  String conversion of a parsed value, as a template literal \<open>${v}\<close> performs it.
  Primitives print. An array prints its elements joined by commas, \<open>null\<close> elements as
  the empty string, and fails where an element fails. An object is converted through
  its \<open>toString\<close> and \<open>valueOf\<close>: without an own \<open>toString\<close> key the inherited method
  answers \<open>[object Object]\<close>; with one, the own value (never a function in parsed JSON)
  hides the inherited method, \<open>valueOf\<close> gives no primitive either, and the conversion
  throws a \<open>TypeError\<close>. The text itself only goes to the console; what \<open>readState\<close>
  depends on is whether the conversion throws (integers are shown in plain decimal,
  without the exponent notation of very large numbers).
\<close>

fun toStringJs :: "json \<Rightarrow> error + string"
  and elementStrings :: "json list \<Rightarrow> error + string list" where
  "toStringJs JNull = Inr ''null''"
| "toStringJs (JBool b) = Inr (if b then ''true'' else ''false'')"
| "toStringJs (JNum n) = Inr (if n < 0 then ''-'' @ decimal (nat (- n)) else decimal (nat n))"
| "toStringJs (JStr s) = Inr s"
| "toStringJs (JArr xs) =
     (case elementStrings xs of
        Inl e \<Rightarrow> Inl e
      | Inr parts \<Rightarrow> Inr (join '','' parts))"
| "toStringJs (JObj props) =
     (if map_of props ''toString'' \<noteq> None then Inl TypeError
      else Inr ''[object Object]'')"
| "elementStrings [] = Inr []"
| "elementStrings (x # xs) =
     (case (case x of JNull \<Rightarrow> Inr [] | _ \<Rightarrow> toStringJs x) of
        Inl e \<Rightarrow> Inl e
      | Inr s \<Rightarrow>
          (case elementStrings xs of
             Inl e \<Rightarrow> Inl e
           | Inr ss \<Rightarrow> Inr (s # ss)))"

text \<open>The text a template literal puts in for a property that was read.\<close>

definition templateText :: "json option \<Rightarrow> error + string" where
  "templateText v = (case v of None \<Rightarrow> Inr ''undefined'' | Some x \<Rightarrow> toStringJs x)"

text \<open>
  The statements of the \<open>try\<close> block after the parse. Each coercion first builds its
  warning, \<open>Unknown desired_state '${state.desired_state}', treating as 'pause'\<close>, and
  only then assigns; a value that cannot be converted to a string throws there, inside
  the \<open>try\<close>.
\<close>

definition readStateBody :: "string \<Rightarrow> json \<Rightarrow> error + json" where
  "readStateBody stamp state =
     (case getProp state ''desired_state'' of
        Inl e \<Rightarrow> Inl e
      | Inr desired \<Rightarrow>
          if falsy desired then Inr (defaultState stamp ''Malformed state file'')
          else
            (case getProp state ''current_state'' of
               Inl e \<Rightarrow> Inl e
             | Inr current \<Rightarrow>
                 if falsy current then Inr (defaultState stamp ''Malformed state file'')
                 else
                   (case (if \<not> validState desired
                          then (case templateText desired of
                                  Inl e \<Rightarrow> Inl e
                                | Inr warning \<Rightarrow>
                                    setProp state ''desired_state'' (JStr ''pause''))
                          else Inr state) of
                      Inl e \<Rightarrow> Inl e
                    | Inr state1 \<Rightarrow>
                        (case getProp state1 ''current_state'' of
                           Inl e \<Rightarrow> Inl e
                         | Inr current1 \<Rightarrow>
                             if \<not> validState current1
                             then (case templateText current1 of
                                     Inl e \<Rightarrow> Inl e
                                   | Inr warning \<Rightarrow>
                                       setProp state1 ''current_state'' (JStr ''pause''))
                             else Inr state1))))"

text \<open>\<open>readState\<close>; \<open>errorText\<close> renders the caught error in the note (\<open>${error}\<close>). A
  state file that cannot be read or parsed is \<open>Malformed\<close>.\<close>

definition readState :: "string \<Rightarrow> (error \<Rightarrow> string) \<Rightarrow> json json_file \<Rightarrow> json" where
  "readState stamp errorText file =
     (case file of
        Missing \<Rightarrow> defaultState stamp ''Default state (file did not exist)''
      | Malformed \<Rightarrow> defaultState stamp (''Read error: '' @ errorText SyntaxError)
      | Holds state \<Rightarrow>
          (case readStateBody stamp state of
             Inl e \<Rightarrow> defaultState stamp (''Read error: '' @ errorText e)
           | Inr result \<Rightarrow> result))"

text \<open>Reading a field of the returned record.\<close>

definition field :: "json \<Rightarrow> string \<Rightarrow> json option" where
  "field v k = (case v of JObj props \<Rightarrow> map_of props k | _ \<Rightarrow> None)"

section \<open>Workflow engine: src/unnamed/part\_006 (workflow-engine.ts) and the test phase\<close>

datatype WorkflowState =
  Idle | Initializing | Selecting | Coding | Verifying | Completed | Failed

datatype NextAction = Continue | Retry | Abort

record WorkflowContext =
  sessionId :: string
  currentStep :: nat
  state :: WorkflowState
  currentFeatureId :: "string option"
  iterationCount :: nat
  maxIterations :: nat
  startedAt :: date
  lastStepCompletedAt :: "date option"

text \<open>A step record, without its wall-clock \<open>duration\<close>.\<close>

record StepResult =
  step_number :: nat
  step_success :: bool
  step_output :: string
  step_error :: "string option"
  nextAction :: NextAction

text \<open>Of a check's \<open>TestResult\<close> the verdict \<open>passed\<close> and the captured \<open>output\<close>,
  which are the fields the engine reads.\<close>

record TestResult =
  check_passed :: bool
  check_output :: string

text \<open>The result of a test phase, without its duration and timestamp.\<close>

record TestPhaseResult =
  lint :: TestResult
  build :: TestResult
  browserTests :: TestResult
  allPassed :: bool
  failedTests :: "string list"

text \<open>The result of a run, without its \<open>totalDuration\<close>.\<close>

record WorkflowResult =
  success :: bool
  featureCompleted :: bool
  featureId :: "string option"
  iterations :: nat
  steps :: "StepResult list"
  testResults :: "TestPhaseResult option"

text \<open>
  What lies outside the engine during one run: whether \<open>init.sh\<close> exists, whether the
  \<open>chmod\<close> command throws (and with what text), what \<open>waitForServer\<close> answers, what the
  three checks of the \<open>n\<close>-th test phase return (or the text of an error thrown while
  the phase runs or is formatted), and how an error prints.
\<close>

record World =
  initScriptExists :: bool
  chmodThrows :: "string option"
  serverReady :: bool
  testPhaseRun :: "nat \<Rightarrow> string + (TestResult \<times> TestResult \<times> TestResult)"
  errorString :: "error \<Rightarrow> string"

text \<open>The engine's fields that its steps read or write; the feature manager it was given
  carries its own state.\<close>

record WorkflowEngine =
  projectRoot :: string
  featureManager :: FeatureManager
  engine_context :: WorkflowContext

definition createInitialContext :: "string \<Rightarrow> date \<Rightarrow> WorkflowContext" where
  "createInitialContext sid now =
     \<lparr> sessionId = sid, currentStep = 1, state = Idle, currentFeatureId = None,
       iterationCount = 0, maxIterations = 3, startedAt = now,
       lastStepCompletedAt = None \<rparr>"

text \<open>The constructor. Its fourth parameter \<open>maxIterations\<close> (default 3) is bound and
  never read; \<open>sid\<close> is the generated session id.\<close>

definition newWorkflowEngine ::
  "string \<Rightarrow> FeatureManager \<Rightarrow> nat option \<Rightarrow> string \<Rightarrow> date \<Rightarrow> WorkflowEngine" where
  "newWorkflowEngine root fm maxIterationsArg sid now =
     (let maxIterationsParam = (case maxIterationsArg of None \<Rightarrow> 3 | Some n \<Rightarrow> n)
      in \<lparr> projectRoot = root, featureManager = fm,
           engine_context = createInitialContext sid now \<rparr>)"

text \<open>\<open>executeTestPhase\<close> of the test phase (in src/core/agent-coordinator.ts).\<close>

definition executeTestPhase :: "TestResult \<Rightarrow> TestResult \<Rightarrow> TestResult \<Rightarrow> TestPhaseResult" where
  "executeTestPhase lintResult buildResult browserResult =
     (let failed = (if \<not> check_passed lintResult then [''lint''] else [])
                 @ (if \<not> check_passed buildResult then [''build''] else [])
                 @ (if \<not> check_passed browserResult then [''browser''] else [])
      in \<lparr> lint = lintResult, build = buildResult, browserTests = browserResult,
           allPassed = (length failed = 0), failedTests = failed \<rparr>)"

definition formatCheck :: "string \<Rightarrow> TestResult \<Rightarrow> string" where
  "formatCheck label r =
     label @ '': '' @ (if check_passed r then ''PASSED'' else ''FAILED'') @ [CHR 0x0A]
     @ (if check_output r \<noteq> [] then ''  '' @ take 200 (check_output r) @ [CHR 0x0A] else [])"

definition formatTestPhaseOutput :: "TestPhaseResult \<Rightarrow> string" where
  "formatTestPhaseOutput results =
     ''=== Test Phase Results ==='' @ [CHR 0x0A, CHR 0x0A]
     @ formatCheck ''Lint'' (lint results)
     @ formatCheck ''Build'' (build results)
     @ formatCheck ''Browser Tests'' (browserTests results)
     @ [CHR 0x0A] @ ''Overall: ''
     @ (if allPassed results then ''ALL PASSED'' else ''SOME FAILED'') @ [CHR 0x0A]
     @ (if length (failedTests results) > 0
        then [CHR 0x0A] @ ''Failed: '' @ join '', '' (failedTests results) @ [CHR 0x0A]
        else [])"

definition executeStep1 :: "date \<Rightarrow> World \<Rightarrow> WorkflowEngine \<Rightarrow> StepResult \<times> WorkflowEngine" where
  "executeStep1 now w e =
     (if \<not> initScriptExists w
      then (\<lparr> step_number = 1, step_success = False, step_output = ''init.sh not found'',
               step_error = Some ''init.sh script does not exist in project root'',
               nextAction = Abort \<rparr>, e)
      else
        (case chmodThrows w of
           Some msg \<Rightarrow>
             (\<lparr> step_number = 1, step_success = False, step_output = [],
                step_error = Some msg, nextAction = Retry \<rparr>, e)
         | None \<Rightarrow>
             if \<not> serverReady w
             then (\<lparr> step_number = 1, step_success = False,
                      step_output = ''Executing: ./init.sh'' @ [CHR 0x0A],
                      step_error = Some ''Server did not start within timeout'',
                      nextAction = Retry \<rparr>, e)
             else (\<lparr> step_number = 1, step_success = True,
                      step_output = ''Executing: ./init.sh'' @ [CHR 0x0A]
                        @ ''Server running at http://localhost:3000'',
                      step_error = None, nextAction = Continue \<rparr>,
                   e\<lparr> engine_context := (engine_context e)
                        \<lparr> currentStep := 2, lastStepCompletedAt := Some now \<rparr> \<rparr>)))"

definition executeStep2 :: "date \<Rightarrow> World \<Rightarrow> WorkflowEngine \<Rightarrow> StepResult \<times> WorkflowEngine" where
  "executeStep2 now w e =
     (case getNextIncompleteFeature (featureManager e) of
        (Inl err, fm') \<Rightarrow>
          (\<lparr> step_number = 2, step_success = False, step_output = [],
             step_error = Some (errorString w err), nextAction = Retry \<rparr>,
           e\<lparr> featureManager := fm' \<rparr>)
      | (Inr None, fm') \<Rightarrow>
          (\<lparr> step_number = 2, step_success = False,
             step_output = ''No incomplete features found'',
             step_error = Some ''All features completed or no features defined'',
             nextAction = Abort \<rparr>,
           e\<lparr> featureManager := fm' \<rparr>)
      | (Inr (Some nextFeature), fm') \<Rightarrow>
          (\<lparr> step_number = 2, step_success = True,
             step_output = ''Selected feature: '' @ feature_id nextFeature @ '' - ''
               @ feature_description nextFeature,
             step_error = None, nextAction = Continue \<rparr>,
           e\<lparr> featureManager := fm',
              engine_context := (engine_context e)
                \<lparr> currentFeatureId := Some (feature_id nextFeature),
                  currentStep := 3, lastStepCompletedAt := Some now \<rparr> \<rparr>))"

definition executeStep3 :: "date \<Rightarrow> nat \<Rightarrow> WorkflowEngine \<Rightarrow> StepResult \<times> WorkflowEngine" where
  "executeStep3 now iteration e =
     (let shown = (case currentFeatureId (engine_context e) of None \<Rightarrow> ''null'' | Some i \<Rightarrow> i);
          out = (if iteration = 1
                 then ''Starting implementation of feature: '' @ shown
                 else ''Retrying implementation (iteration '' @ decimal iteration @ ''): ''
                      @ shown)
      in (\<lparr> step_number = 3, step_success = True, step_output = out,
            step_error = None, nextAction = Continue \<rparr>,
          e\<lparr> engine_context := (engine_context e)
               \<lparr> currentStep := 4, lastStepCompletedAt := Some now \<rparr> \<rparr>))"

text \<open>\<open>executeStep4\<close>; \<open>n\<close> is the iteration whose test phase runs.\<close>

definition executeStep4 ::
  "date \<Rightarrow> World \<Rightarrow> nat \<Rightarrow> WorkflowEngine \<Rightarrow> StepResult \<times> WorkflowEngine" where
  "executeStep4 now w n e =
     (case testPhaseRun w n of
        Inl msg \<Rightarrow>
          (\<lparr> step_number = 4, step_success = False, step_output = [],
             step_error = Some msg, nextAction = Retry \<rparr>, e)
      | Inr (lintResult, buildResult, browserResult) \<Rightarrow>
          (let results = executeTestPhase lintResult buildResult browserResult;
               out = formatTestPhaseOutput results
           in if allPassed results
              then (\<lparr> step_number = 4, step_success = True, step_output = out,
                       step_error = None, nextAction = Continue \<rparr>,
                    e\<lparr> engine_context := (engine_context e)
                         \<lparr> state := Completed, lastStepCompletedAt := Some now \<rparr> \<rparr>)
              else (\<lparr> step_number = 4, step_success = False, step_output = out,
                       step_error = Some (join '', '' (failedTests results)),
                       nextAction = Retry \<rparr>, e)))"

definition setState :: "WorkflowState \<Rightarrow> WorkflowEngine \<Rightarrow> WorkflowEngine" where
  "setState st e = e\<lparr> engine_context := (engine_context e)\<lparr> state := st \<rparr> \<rparr>"

text \<open>
  The \<open>while\<close> loop of \<open>executeWorkflow\<close> with its local variables \<open>allPassed\<close>,
  \<open>iterations\<close> and \<open>steps\<close>. The bound is read from the context at every test.
\<close>

function workflowLoop ::
  "date \<Rightarrow> World \<Rightarrow> WorkflowEngine \<Rightarrow> bool \<Rightarrow> nat \<Rightarrow> StepResult list
     \<Rightarrow> WorkflowEngine \<times> bool \<times> nat \<times> StepResult list" where
  "workflowLoop now w e passedAll its acc =
     (if \<not> passedAll \<and> its < maxIterations (engine_context e) then
        (let its' = its + 1;
             e1 = setState Coding
                    (e\<lparr> engine_context := (engine_context e)\<lparr> iterationCount := its' \<rparr> \<rparr>);
             step3Result = fst (executeStep3 now its' e1);
             e2 = snd (executeStep3 now its' e1);
             acc1 = acc @ [step3Result]
         in if \<not> step_success step3Result then workflowLoop now w e2 passedAll its' acc1
            else
              (let e3 = setState Verifying e2;
                   step4Result = fst (executeStep4 now w its' e3);
                   e4 = snd (executeStep4 now w its' e3);
                   acc2 = acc1 @ [step4Result]
               in if step_success step4Result
                  then workflowLoop now w (setState Completed e4) True its' acc2
                  else workflowLoop now w (setState Coding e4) passedAll its' acc2))
      else (e, passedAll, its, acc))"
  by pat_completeness auto
termination
  by (relation "measure (\<lambda>(now, w, e, passedAll, its, acc).
                  maxIterations (engine_context e) - its)")
     (auto simp: executeStep3_def executeStep4_def setState_def Let_def
           split: sum.splits prod.splits)

declare workflowLoop.simps [simp del]

definition createFailedResult ::
  "StepResult list \<Rightarrow> WorkflowEngine \<Rightarrow> WorkflowResult \<times> WorkflowEngine" where
  "createFailedResult acc e =
     (\<lparr> success = False, featureCompleted = False,
        featureId = currentFeatureId (engine_context e),
        iterations = iterationCount (engine_context e),
        steps = acc, testResults = None \<rparr>,
      setState Failed e)"

text \<open>\<open>executeWorkflow\<close>. A step record has no \<open>testResults\<close> property, so the
  \<open>testResults\<close> of the final result is always \<open>undefined\<close>.\<close>

definition executeWorkflow :: "date \<Rightarrow> World \<Rightarrow> WorkflowEngine \<Rightarrow> WorkflowResult \<times> WorkflowEngine" where
  "executeWorkflow now w e =
     (let e0 = setState Initializing e;
          step1Result = fst (executeStep1 now w e0);
          e1 = snd (executeStep1 now w e0);
          acc1 = [step1Result]
      in if \<not> step_success step1Result then createFailedResult acc1 e1
         else
           (let e1' = setState Selecting e1;
                step2Result = fst (executeStep2 now w e1');
                e2 = snd (executeStep2 now w e1');
                acc2 = acc1 @ [step2Result]
            in if \<not> step_success step2Result then createFailedResult acc2 e2
               else
                 (case workflowLoop now w e2 False 0 acc2 of
                    (e3, passedAll, its, acc3) \<Rightarrow>
                      (\<lparr> success = passedAll, featureCompleted = passedAll,
                         featureId = currentFeatureId (engine_context e3),
                         iterations = its, steps = acc3, testResults = None \<rparr>,
                       e3))))"

section \<open>The specification's wording and its scenarios\<close>

subsection \<open>Feature selection\<close>

text \<open>"Dependencies all satisfied": every dependency id names a feature of the
  collection that passes; an id naming no feature is not satisfied.\<close>

definition dependenciesSatisfied :: "Feature list \<Rightarrow> Feature \<Rightarrow> bool" where
  "dependenciesSatisfied fs f =
     (\<forall>d \<in> set (case dependencies f of None \<Rightarrow> [] | Some ds \<Rightarrow> ds).
        case List.find (\<lambda>g. feature_id g = d) fs of
          None \<Rightarrow> False
        | Some g \<Rightarrow> feature_passes g)"

text \<open>The four steps of the specification: filter to the failing features, sort them by
  ascending priority keeping the insertion order of ties, take the first whose
  dependencies are satisfied, else the first of the sorted list.\<close>

definition specNextIncomplete :: "Feature list \<Rightarrow> Feature option" where
  "specNextIncomplete fs =
     (let candidates = sort_key feature_priority (filter (\<lambda>f. \<not> feature_passes f) fs) in
      case List.find (dependenciesSatisfied fs) candidates of
        Some f \<Rightarrow> Some f
      | None \<Rightarrow> (case candidates of [] \<Rightarrow> None | f # _ \<Rightarrow> Some f))"

text \<open>An incomplete feature that may be started.\<close>

definition ready :: "Feature list \<Rightarrow> Feature \<Rightarrow> bool" where
  "ready fs g \<longleftrightarrow> \<not> feature_passes g \<and> dependenciesSatisfied fs g"

text \<open>Scenario A: F1 (priority 10, no dependencies) and F2 (priority 5, depends on F1),
  both failing. Scenario B: F1 (priority 5, depends on the absent F2) alone.\<close>

definition mkFeature :: "string \<Rightarrow> int \<Rightarrow> string list option \<Rightarrow> bool \<Rightarrow> Feature" where
  "mkFeature i p deps ok =
     \<lparr> feature_id = i, feature_category = Functional, feature_description = [],
       feature_steps = [''check''], feature_passes = ok, feature_priority = p,
       dependencies = deps, verificationNotes = None, lastAttemptedAt = None,
       completedAt = None \<rparr>"

definition scenarioA :: "Feature list" where
  "scenarioA = [mkFeature ''F1'' 10 None False, mkFeature ''F2'' 5 (Some [''F1'']) False]"

definition scenarioB :: "Feature list" where
  "scenarioB = [mkFeature ''F1'' 5 (Some [''F2'']) False]"

definition listOf :: "Feature list \<Rightarrow> FeatureList" where
  "listOf fs =
     \<lparr> projectName = ''demo'', createdAt = 0, updatedAt = 0, totalFeatures = length fs,
       completedFeatures = length (filter feature_passes fs), features = fs \<rparr>"

text \<open>A manager that has not loaded yet, over a file holding the given features.\<close>

definition managerHolding :: "Feature list \<Rightarrow> FeatureManager" where
  "managerHolding fs =
     \<lparr> featureList = None, featureListFile = Holds (listOf fs),
       featureListWritable = True, projectBasename = ''demo'' \<rparr>"

subsection \<open>Guarded completion and the missing store\<close>

text \<open>The collection a manager sees when it loads: the cached list, else the file's.\<close>

definition visibleList :: "FeatureManager \<Rightarrow> error + FeatureList" where
  "visibleList m = fst (loadFeatureList m)"

text \<open>The record \<open>markFeatureComplete\<close> is to leave behind for a feature.\<close>

definition completedRecord :: "date \<Rightarrow> VerificationStep list \<Rightarrow> Feature \<Rightarrow> Feature" where
  "completedRecord now vs f =
     f\<lparr> feature_passes := True, completedAt := Some now,
        verificationNotes := Some (join [CHR 0x0A] (map (\<lambda>s. step s @ '': PASS'') vs)) \<rparr>"

definition stepOk :: "string \<Rightarrow> VerificationStep" where
  "stepOk s = \<lparr> step = s, passed = True, evidence = None \<rparr>"

definition stepBad :: "string \<Rightarrow> VerificationStep" where
  "stepBad s = \<lparr> step = s, passed = False, evidence = None \<rparr>"

text \<open>A manager that has loaded nothing, over a project without \<open>feature_list.json\<close>.\<close>

definition managerWithoutFile :: FeatureManager where
  "managerWithoutFile =
     \<lparr> featureList = None, featureListFile = Missing,
       featureListWritable = True, projectBasename = ''demo'' \<rparr>"

subsection \<open>The test ledger\<close>

text \<open>The evidence conditions of the specification: both paths exist on disk and the
  console log is a file whose text holds neither failure marker.\<close>

definition evidenceAcceptable :: "TestManager \<Rightarrow> Evidence \<Rightarrow> bool" where
  "evidenceAcceptable d ev \<longleftrightarrow>
     paths d (evidence_screenshot_path ev) \<noteq> None
     \<and> (case paths d (evidence_console_log_path ev) of
          Some (File content) \<Rightarrow>
            \<not> str_includes content ''ERROR'' \<and> \<not> str_includes content ''FAIL''
        | _ \<Rightarrow> False)"

text \<open>One of the three conditions fails: a path is missing, or the log's text holds a
  failure marker.\<close>

definition evidenceRejected :: "TestManager \<Rightarrow> Evidence \<Rightarrow> bool" where
  "evidenceRejected d ev \<longleftrightarrow>
     paths d (evidence_screenshot_path ev) = None
     \<or> paths d (evidence_console_log_path ev) = None
     \<or> (case paths d (evidence_console_log_path ev) of
          Some (File content) \<Rightarrow>
            str_includes content ''ERROR'' \<or> str_includes content ''FAIL''
        | _ \<Rightarrow> False)"

text \<open>The test record a successful \<open>markTestPassing\<close> leaves behind.\<close>

definition verifiedRecord :: "date \<Rightarrow> Evidence \<Rightarrow> TestCase \<Rightarrow> TestCase" where
  "verifiedRecord now ev t =
     t\<lparr> test_passes := True, verified_at := Some now,
        screenshot_path := Some (evidence_screenshot_path ev),
        console_log_path := Some (evidence_console_log_path ev),
        test_notes := evidence_notes ev \<rparr>"

text \<open>The fresh suite of \<open>initialize\<close>: version 1.0.0 and no tests.\<close>

definition emptySuite :: "date \<Rightarrow> TestSuite" where
  "emptySuite now =
     \<lparr> version = ''1.0.0'', created_at = now, updated_at = now,
       total_tests = 0, passed_tests = 0, tests = [] \<rparr>"

text \<open>Scenario C: a ledger with the failing test T1, a screenshot and two console logs
  on disk, one clean and one reporting an error.\<close>

definition testT1 :: TestCase where
  "testT1 =
     \<lparr> test_id = ''T1'', test_category = TestFunctional, test_description = ''login'',
       test_steps = [''open page''], test_passes = False, test_priority = High,
       verified_at = None, screenshot_path = None, console_log_path = None,
       test_notes = None \<rparr>"

definition suiteC :: TestSuite where
  "suiteC =
     \<lparr> version = ''1.0.0'', created_at = 1, updated_at = 1,
       total_tests = 1, passed_tests = 0, tests = [testT1] \<rparr>"

definition ledgerC :: TestManager where
  "ledgerC =
     \<lparr> testsFile = Holds suiteC, testsWritable = True,
       paths = (\<lambda>p. if p = ''shots/t1.png'' then Some (File ''PNG'')
                     else if p = ''logs/t1.log'' then Some (File ''page loaded'')
                     else if p = ''logs/bad.log'' then Some (File ''GET /x ERROR 500'')
                     else None) \<rparr>"

definition evidenceOf :: "string \<Rightarrow> string \<Rightarrow> Evidence" where
  "evidenceOf shot log =
     \<lparr> evidence_screenshot_path = shot, evidence_console_log_path = log,
       evidence_notes = Some ''verified by hand'' \<rparr>"

definition corruptLedger :: TestManager where
  "corruptLedger = \<lparr> testsFile = Malformed, testsWritable = True, paths = (\<lambda>p. None) \<rparr>"

definition absentLedger :: TestManager where
  "absentLedger = \<lparr> testsFile = Missing, testsWritable = True, paths = (\<lambda>p. None) \<rparr>"

subsection \<open>The human backlog\<close>

text \<open>
  The precedence of the specification, most urgent first: an item in progress; then a
  backlog-status item of priority critical, high, medium, low; then any item of
  priority critical, high, medium, low; then any item at all. Each rule is applied to
  the items not yet completed, in file order.
\<close>

definition precedence :: "(BacklogItem \<Rightarrow> bool) list" where
  "precedence =
     [\<lambda>i. item_status i = ''in_progress'',
      \<lambda>i. item_status i = ''backlog'' \<and> item_priority i = ''critical'',
      \<lambda>i. item_status i = ''backlog'' \<and> item_priority i = ''high'',
      \<lambda>i. item_status i = ''backlog'' \<and> item_priority i = ''medium'',
      \<lambda>i. item_status i = ''backlog'' \<and> item_priority i = ''low'',
      \<lambda>i. item_priority i = ''critical'',
      \<lambda>i. item_priority i = ''high'',
      \<lambda>i. item_priority i = ''medium'',
      \<lambda>i. item_priority i = ''low'',
      \<lambda>i. True]"

text \<open>Short-circuiting: the first rule with a match decides, and its first match in
  file order is the answer.\<close>

fun firstMatch :: "(BacklogItem \<Rightarrow> bool) list \<Rightarrow> BacklogItem list \<Rightarrow> BacklogItem option" where
  "firstMatch [] backlog = None"
| "firstMatch (rule # rules) backlog =
     (case List.find (\<lambda>i. \<not> completed i \<and> rule i) backlog of
        Some i \<Rightarrow> Some i
      | None \<Rightarrow> firstMatch rules backlog)"

definition specNextItem :: "BacklogItem list \<Rightarrow> BacklogItem option" where
  "specNextItem backlog = firstMatch precedence backlog"

text \<open>The invariant of the data model: \<open>completed\<close> holds exactly of the items whose
  status is \<open>done\<close>.\<close>

definition backlogInvariant :: "BacklogItem list \<Rightarrow> bool" where
  "backlogInvariant backlog \<longleftrightarrow>
     (\<forall>i\<in>set backlog. completed i \<longleftrightarrow> item_status i = ''done'')"

definition mkItem :: "string \<Rightarrow> string \<Rightarrow> string \<Rightarrow> bool \<Rightarrow> BacklogItem" where
  "mkItem i p s c =
     \<lparr> item_id = i, item_type = Bug, item_priority = p, item_status = s,
       item_description = ''request'', details = [], comments = [], added = 1,
       completed = c, completedDate = (if c then Some 2 else None),
       github_issue = None, vote_count = Some 0 \<rparr>"

definition storeOf :: "BacklogItem list \<Rightarrow> BacklogManager" where
  "storeOf backlog = \<lparr> backlogFile = Holds backlog, backlogWritable = True \<rparr>"

text \<open>A backlog exercising the precedence: a finished item, a blocked critical one, a
  low one waiting in the backlog and a medium one in progress.\<close>

definition mixedBacklog :: "BacklogItem list" where
  "mixedBacklog =
     [mkItem ''1'' ''critical'' ''done'' True,
      mkItem ''2'' ''critical'' ''blocked'' False,
      mkItem ''3'' ''low'' ''backlog'' False,
      mkItem ''4'' ''medium'' ''in_progress'' False]"

text \<open>A backlog whose only item is done.\<close>

definition doneBacklog :: "BacklogItem list" where
  "doneBacklog = [mkItem ''1'' ''high'' ''done'' True]"

subsection \<open>The agent state\<close>

text \<open>How errors print in the scenarios below.\<close>

definition plainErrorText :: "error \<Rightarrow> string" where
  "plainErrorText e = ''Error''"

text \<open>Scenario D: the state file holds an unknown desired state and a valid current
  state. The second record has an empty desired state instead.\<close>

definition scenarioD :: json where
  "scenarioD = JObj [(''desired_state'', JStr ''bogus''), (''current_state'', JStr ''continuous'')]"

definition emptyDesired :: json where
  "emptyDesired = JObj [(''desired_state'', JStr []), (''current_state'', JStr ''continuous'')]"

text \<open>The third record has an object in \<open>desired_state\<close> that has no string conversion,
  beside a valid current state and a note.\<close>

definition unprintableDesired :: json where
  "unprintableDesired =
     JObj [(''desired_state'', JObj [(''toString'', JNum 1)]),
           (''current_state'', JStr ''continuous''), (''note'', JStr ''kept'')]"

text \<open>A stored value can be shown in a warning: its string conversion does not throw.\<close>

definition convertible :: "json option \<Rightarrow> bool" where
  "convertible v = (case templateText v of Inl e \<Rightarrow> False | Inr s \<Rightarrow> True)"

subsection \<open>The workflow\<close>

text \<open>The number of code steps and of verify steps among the step records.\<close>

definition codeSteps :: "StepResult list \<Rightarrow> nat" where
  "codeSteps rs = length (filter (\<lambda>s. step_number s = 3) rs)"

definition verifySteps :: "StepResult list \<Rightarrow> nat" where
  "verifySteps rs = length (filter (\<lambda>s. step_number s = 4) rs)"

text \<open>Steps 1 and 2 succeed: the environment comes up and a feature is selected.\<close>

definition environmentStarts :: "World \<Rightarrow> bool" where
  "environmentStarts w \<longleftrightarrow> initScriptExists w \<and> chmodThrows w = None \<and> serverReady w"

definition featureSelected :: "WorkflowEngine \<Rightarrow> bool" where
  "featureSelected e \<longleftrightarrow>
     (case fst (getNextIncompleteFeature (featureManager e)) of
        Inr (Some f) \<Rightarrow> True
      | _ \<Rightarrow> False)"

text \<open>The \<open>n\<close>-th verification fails: the test phase throws, or one of its checks does
  not pass.\<close>

definition verificationFails :: "World \<Rightarrow> nat \<Rightarrow> bool" where
  "verificationFails w n \<longleftrightarrow>
     (case testPhaseRun w n of
        Inl msg \<Rightarrow> True
      | Inr (lintResult, buildResult, browserResult) \<Rightarrow>
          \<not> (check_passed lintResult \<and> check_passed buildResult
             \<and> check_passed browserResult))"

text \<open>Scenario E: everything starts, and the build check fails in every test phase.\<close>

definition brokenBuild :: "nat \<Rightarrow> string + (TestResult \<times> TestResult \<times> TestResult)" where
  "brokenBuild n =
     Inr (\<lparr> check_passed = True, check_output = ''No lint errors found'' \<rparr>,
          \<lparr> check_passed = False, check_output = ''tsc: error TS2304'' \<rparr>,
          \<lparr> check_passed = True, check_output = ''ok'' \<rparr>)"

definition scenarioE :: World where
  "scenarioE =
     \<lparr> initScriptExists = True, chmodThrows = None, serverReady = True,
       testPhaseRun = brokenBuild, errorString = plainErrorText \<rparr>"

text \<open>Engines over Scenario A's features: one constructed with the default cap, one
  asked for a single iteration.\<close>

definition defaultEngine :: WorkflowEngine where
  "defaultEngine = newWorkflowEngine ''/project'' (managerHolding scenarioA) None ''session-1'' 0"

definition singleShotEngine :: WorkflowEngine where
  "singleShotEngine =
     newWorkflowEngine ''/project'' (managerHolding scenarioA) (Some 1) ''session-1'' 0"

section \<open>Properties of the feature backlog\<close>

lemma firstWithDependenciesMet_find:
  "firstWithDependenciesMet fs xs = List.find (areDependenciesMet fs) xs"
  by (induction xs) simp_all

lemma find_sorted_least:
  "sorted (map k xs) \<Longrightarrow> List.find P xs = Some x \<Longrightarrow> y \<in> set xs \<Longrightarrow> P y \<Longrightarrow> k x \<le> k y"
  by (induction xs) (auto split: if_splits)

lemma find_filter_conj:
  "List.find P (filter Q xs) = List.find (\<lambda>x. Q x \<and> P x) xs"
  by (induction xs) simp_all

lemma find_Some_filter:
  "List.find P xs = Some x \<Longrightarrow> Q x \<Longrightarrow> List.find P (filter Q xs) = Some x"
  by (induction xs) (auto split: if_splits)

lemma find_Some_holds: "List.find P xs = Some x \<Longrightarrow> P x \<and> x \<in> set xs"
  by (induction xs) (auto split: if_splits)

lemma dependenciesLoop_iff:
  "dependenciesLoop fs ds \<longleftrightarrow>
     (\<forall>d\<in>set ds. case List.find (\<lambda>g. feature_id g = d) fs of
                    None \<Rightarrow> False | Some g \<Rightarrow> feature_passes g)"
  by (induction ds) (auto split: option.splits)

lemma areDependenciesMet_satisfied: "areDependenciesMet fs f = dependenciesSatisfied fs f"
  by (auto simp: areDependenciesMet_def dependenciesSatisfied_def dependenciesLoop_iff
           split: option.splits)

lemma find_sort_key_first:
  assumes "List.find P (sort_key k xs) = Some x"
  shows "List.find (\<lambda>y. k y = k x \<and> P y) xs = Some x"
    and "\<forall>y\<in>set xs. P y \<longrightarrow> k x \<le> k y"
proof -
  have "List.find P (filter (\<lambda>y. k y = k x) (sort_key k xs)) = Some x"
    using assms by (rule find_Some_filter) simp
  then have "List.find P (filter (\<lambda>y. k y = k x) xs) = Some x"
    by (simp only: sort_key_stable)
  then show "List.find (\<lambda>y. k y = k x \<and> P y) xs = Some x"
    by (simp only: find_filter_conj)
  show "\<forall>y\<in>set xs. P y \<longrightarrow> k x \<le> k y"
    using find_sorted_least [of k "sort_key k xs" P x] assms by simp
qed

lemma head_as_find: "xs \<noteq> [] \<Longrightarrow> List.find (\<lambda>_. True) xs = Some (xs ! 0)"
  by (cases xs) simp_all

lemma incompleteFeatures_Nil:
  "incompleteFeatures fs = [] \<longleftrightarrow> (\<forall>f\<in>set fs. feature_passes f)"
proof -
  have "incompleteFeatures fs = [] \<longleftrightarrow> set (incompleteFeatures fs) = {}" by simp
  also have "\<dots> \<longleftrightarrow> (\<forall>f\<in>set fs. feature_passes f)"
    unfolding incompleteFeatures_def by auto
  finally show ?thesis .
qed

lemma nextIncompleteOf_None:
  "nextIncompleteOf fs = None \<longleftrightarrow> (\<forall>f\<in>set fs. feature_passes f)"
  by (simp add: nextIncompleteOf_def Let_def incompleteFeatures_Nil split: option.splits)

lemma nextIncompleteOf_spec: "nextIncompleteOf fs = specNextIncomplete fs"
proof -
  have "dependenciesSatisfied fs = areDependenciesMet fs"
    by (rule ext) (simp add: areDependenciesMet_satisfied)
  then show ?thesis
    by (cases "incompleteFeatures fs")
       (simp_all add: nextIncompleteOf_def specNextIncomplete_def Let_def
          firstWithDependenciesMet_find incompleteFeatures_def split: option.splits)
qed

lemma incompleteFeatures_stable:
  "filter (\<lambda>f. feature_priority f = k) (incompleteFeatures fs)
     = filter (\<lambda>f. \<not> feature_passes f \<and> feature_priority f = k) fs"
  by (simp add: incompleteFeatures_def sort_key_stable conj_commute)

lemma nextIncompleteOf_ready:
  assumes "nextIncompleteOf fs = Some f" and "\<exists>g\<in>set fs. ready fs g"
  shows "List.find (\<lambda>g. ready fs g \<and> feature_priority g = feature_priority f) fs = Some f"
    and "\<forall>g\<in>set fs. ready fs g \<longrightarrow> feature_priority f \<le> feature_priority g"
proof -
  let ?inc = "filter (\<lambda>f. \<not> feature_passes f) fs"
  from assms(2) have "\<exists>g\<in>set (incompleteFeatures fs). areDependenciesMet fs g"
    by (auto simp: incompleteFeatures_def ready_def areDependenciesMet_satisfied)
  then obtain h where "List.find (areDependenciesMet fs) (incompleteFeatures fs) = Some h"
    by (cases "List.find (areDependenciesMet fs) (incompleteFeatures fs)")
       (auto simp: find_None_iff)
  with assms(1)
  have fh: "List.find (areDependenciesMet fs) (sort_key feature_priority ?inc) = Some f"
    by (auto simp: nextIncompleteOf_def Let_def firstWithDependenciesMet_find
          incompleteFeatures_def split: if_splits)
  from find_sort_key_first(1) [OF fh]
  show "List.find (\<lambda>g. ready fs g \<and> feature_priority g = feature_priority f) fs = Some f"
    by (simp add: find_filter_conj ready_def areDependenciesMet_satisfied conj_ac)
  from find_sort_key_first(2) [OF fh]
  show "\<forall>g\<in>set fs. ready fs g \<longrightarrow> feature_priority f \<le> feature_priority g"
    by (simp add: ready_def areDependenciesMet_satisfied)
qed

lemma nextIncompleteOf_fallback:
  assumes "nextIncompleteOf fs = Some f" and "\<not> (\<exists>g\<in>set fs. ready fs g)"
  shows "List.find (\<lambda>g. \<not> feature_passes g \<and> feature_priority g = feature_priority f) fs
           = Some f"
    and "\<forall>g\<in>set fs. \<not> feature_passes g \<longrightarrow> feature_priority f \<le> feature_priority g"
proof -
  let ?inc = "filter (\<lambda>f. \<not> feature_passes f) fs"
  from assms(2) have "List.find (areDependenciesMet fs) (incompleteFeatures fs) = None"
    by (auto simp: incompleteFeatures_def ready_def find_None_iff areDependenciesMet_satisfied)
  with assms(1) have ne: "incompleteFeatures fs \<noteq> []" and f: "f = incompleteFeatures fs ! 0"
    by (auto simp: nextIncompleteOf_def Let_def firstWithDependenciesMet_find split: if_splits)
  from head_as_find [OF ne] f
  have fh: "List.find (\<lambda>_. True) (sort_key feature_priority ?inc) = Some f"
    by (simp add: incompleteFeatures_def)
  from find_sort_key_first(1) [OF fh]
  show "List.find (\<lambda>g. \<not> feature_passes g \<and> feature_priority g = feature_priority f) fs
          = Some f"
    by (simp add: find_filter_conj conj_ac)
  from find_sort_key_first(2) [OF fh]
  show "\<forall>g\<in>set fs. \<not> feature_passes g \<longrightarrow> feature_priority f \<le> feature_priority g"
    by simp
qed

text \<open>
  Claim C1. Whenever the feature collection loads, \<open>getNextIncompleteFeature\<close> returns a
  value \<open>r\<close> with these properties. It is \<open>None\<close> exactly when every feature passes, and
  so it is a feature whenever some feature fails. It is what the four steps of the
  specification compute: the failing features sorted by ascending priority, with equal
  priorities in their insertion order (the sorted list is ascending and, priority by
  priority, lists the failing features in their original order), scanned for the first
  one whose dependencies are all satisfied, with the head of the sorted list as fallback.
  Put without the sort: the result is a failing feature of the collection; if some
  failing feature has its dependencies satisfied, the result is the first feature in
  insertion order among the ready ones of least priority; if none has (a dependency
  naming no feature counts as unsatisfied), it is the first in insertion order among the
  failing features of least priority. Being a function of the collection, the same
  input gives the same feature.
\<close>

theorem getNextIncompleteFeature_selection:
  assumes "loadFeatureList m = (Inr l, m')"
  shows "\<exists>r. getNextIncompleteFeature m = (Inr r, m')
     \<and> (r = None \<longleftrightarrow> (\<forall>f\<in>set (features l). feature_passes f))
     \<and> ((\<exists>f\<in>set (features l). \<not> feature_passes f) \<longrightarrow> r \<noteq> None)
     \<and> r = specNextIncomplete (features l)
     \<and> sorted (map feature_priority (incompleteFeatures (features l)))
     \<and> (\<forall>k. filter (\<lambda>f. feature_priority f = k) (incompleteFeatures (features l))
             = filter (\<lambda>f. \<not> feature_passes f \<and> feature_priority f = k) (features l))
     \<and> (\<forall>f. areDependenciesMet (features l) f = dependenciesSatisfied (features l) f)
     \<and> (\<forall>f. r = Some f \<longrightarrow>
           f \<in> set (features l) \<and> \<not> feature_passes f
           \<and> (if \<exists>g\<in>set (features l). ready (features l) g
              then ready (features l) f
                 \<and> (\<forall>g\<in>set (features l). ready (features l) g
                        \<longrightarrow> feature_priority f \<le> feature_priority g)
                 \<and> List.find (\<lambda>g. ready (features l) g
                                  \<and> feature_priority g = feature_priority f) (features l)
                     = Some f
              else (\<forall>g\<in>set (features l). \<not> feature_passes g
                        \<longrightarrow> feature_priority f \<le> feature_priority g)
                 \<and> List.find (\<lambda>g. \<not> feature_passes g
                                  \<and> feature_priority g = feature_priority f) (features l)
                     = Some f))"
proof -
  let ?fs = "features l"
  let ?r = "nextIncompleteOf ?fs"
  have run: "getNextIncompleteFeature m = (Inr ?r, m')"
    using assms by (simp add: getNextIncompleteFeature_def)
  have none: "?r = None \<longleftrightarrow> (\<forall>f\<in>set ?fs. feature_passes f)"
    by (rule nextIncompleteOf_None)
  have some: "(\<exists>f\<in>set ?fs. \<not> feature_passes f) \<longrightarrow> ?r \<noteq> None"
    using none by blast
  have sorted: "sorted (map feature_priority (incompleteFeatures ?fs))"
    by (simp add: incompleteFeatures_def)
  have choice: "\<forall>f. ?r = Some f \<longrightarrow>
           f \<in> set ?fs \<and> \<not> feature_passes f
           \<and> (if \<exists>g\<in>set ?fs. ready ?fs g
              then ready ?fs f
                 \<and> (\<forall>g\<in>set ?fs. ready ?fs g \<longrightarrow> feature_priority f \<le> feature_priority g)
                 \<and> List.find (\<lambda>g. ready ?fs g \<and> feature_priority g = feature_priority f) ?fs
                     = Some f
              else (\<forall>g\<in>set ?fs. \<not> feature_passes g
                        \<longrightarrow> feature_priority f \<le> feature_priority g)
                 \<and> List.find (\<lambda>g. \<not> feature_passes g
                                  \<and> feature_priority g = feature_priority f) ?fs
                     = Some f)"
  proof (intro allI impI)
    fix f assume r: "?r = Some f"
    show "f \<in> set ?fs \<and> \<not> feature_passes f
           \<and> (if \<exists>g\<in>set ?fs. ready ?fs g
              then ready ?fs f
                 \<and> (\<forall>g\<in>set ?fs. ready ?fs g \<longrightarrow> feature_priority f \<le> feature_priority g)
                 \<and> List.find (\<lambda>g. ready ?fs g \<and> feature_priority g = feature_priority f) ?fs
                     = Some f
              else (\<forall>g\<in>set ?fs. \<not> feature_passes g
                        \<longrightarrow> feature_priority f \<le> feature_priority g)
                 \<and> List.find (\<lambda>g. \<not> feature_passes g
                                  \<and> feature_priority g = feature_priority f) ?fs
                     = Some f)"
    proof (cases "\<exists>g\<in>set ?fs. ready ?fs g")
      case True
      note fnd = nextIncompleteOf_ready(1) [OF r True]
      note least = nextIncompleteOf_ready(2) [OF r True]
      from find_Some_holds [OF fnd] have "ready ?fs f" and "f \<in> set ?fs" by simp_all
      with True fnd least show ?thesis by (simp add: ready_def)
    next
      case False
      note fnd = nextIncompleteOf_fallback(1) [OF r False]
      note least = nextIncompleteOf_fallback(2) [OF r False]
      from find_Some_holds [OF fnd] have "\<not> feature_passes f" and "f \<in> set ?fs" by simp_all
      with False fnd least show ?thesis by simp
    qed
  qed
  from run none some sorted choice show ?thesis
    by (intro exI [of _ ?r] conjI allI)
       (simp_all add: nextIncompleteOf_spec incompleteFeatures_stable
          areDependenciesMet_satisfied)
qed


theorem getNextIncompleteFeature_selection_witness:
  "loadFeatureList (managerHolding scenarioA)
     = (Inr (listOf scenarioA), (managerHolding scenarioA)\<lparr>featureList := Some (listOf scenarioA)\<rparr>)
   \<and> getNextIncompleteFeature (managerHolding scenarioA)
     = (Inr (Some (mkFeature ''F1'' 10 None False)),
        (managerHolding scenarioA)\<lparr>featureList := Some (listOf scenarioA)\<rparr>)
   \<and> loadFeatureList (managerHolding scenarioB)
     = (Inr (listOf scenarioB), (managerHolding scenarioB)\<lparr>featureList := Some (listOf scenarioB)\<rparr>)
   \<and> getNextIncompleteFeature (managerHolding scenarioB)
     = (Inr (Some (mkFeature ''F1'' 5 (Some [''F2'']) False)),
        (managerHolding scenarioB)\<lparr>featureList := Some (listOf scenarioB)\<rparr>)"
proof -
  have la: "loadFeatureList (managerHolding scenarioA)
     = (Inr (listOf scenarioA), (managerHolding scenarioA)\<lparr>featureList := Some (listOf scenarioA)\<rparr>)"
    by (simp add: loadFeatureList_def managerHolding_def)
  have lb: "loadFeatureList (managerHolding scenarioB)
     = (Inr (listOf scenarioB), (managerHolding scenarioB)\<lparr>featureList := Some (listOf scenarioB)\<rparr>)"
    by (simp add: loadFeatureList_def managerHolding_def)
  have a: "specNextIncomplete (features (listOf scenarioA)) = Some (mkFeature ''F1'' 10 None False)"
    by (simp add: specNextIncomplete_def listOf_def scenarioA_def mkFeature_def
          dependenciesSatisfied_def)
  have b: "specNextIncomplete (features (listOf scenarioB)) = Some (mkFeature ''F1'' 5 (Some [''F2'']) False)"
    by (simp add: specNextIncomplete_def listOf_def scenarioB_def mkFeature_def
          dependenciesSatisfied_def)
  from getNextIncompleteFeature_selection [OF la] a
       getNextIncompleteFeature_selection [OF lb] b la lb
  show ?thesis by auto
qed


section \<open>Properties of guarded completion\<close>

lemma updateFirst_split:
  "List.find P xs = Some x \<Longrightarrow>
     \<exists>pre post. xs = pre @ x # post \<and> (\<forall>y\<in>set pre. \<not> P y)
        \<and> updateFirst P h xs = pre @ h x # post"
proof (induction xs)
  case Nil
  then show ?case by simp
next
  case (Cons a xs)
  show ?case
  proof (cases "P a")
    case True
    with Cons.prems have "a = x" by simp
    with True show ?thesis by (intro exI [of _ "[]"] exI [of _ xs]) simp
  next
    case False
    with Cons.prems have "List.find P xs = Some x" by simp
    from Cons.IH [OF this] obtain pre post where
      "xs = pre @ x # post" "\<forall>y\<in>set pre. \<not> P y" "updateFirst P h xs = pre @ h x # post"
      by blast
    with False show ?thesis
      by (intro exI [of _ "a # pre"] exI [of _ post]) simp
  qed
qed

lemma verificationNotesOf_all_passed:
  "list_all passed vs \<Longrightarrow>
     verificationNotesOf vs = join [CHR 0x0A] (map (\<lambda>s. step s @ '': PASS'') vs)"
proof -
  assume "list_all passed vs"
  then have "map stepNote vs = map (\<lambda>s. step s @ '': PASS'') vs"
    by (induction vs) (simp_all add: stepNote_def)
  then show ?thesis by (simp only: verificationNotesOf_def)
qed

lemma loadFeatureList_cases:
  obtains (fail) e where "loadFeatureList m = (Inl e, m)"
        | (ok) l where "loadFeatureList m = (Inr l, m\<lparr>featureList := Some l\<rparr>)"
  by (cases "featureList m"; cases "featureListFile m")
     (auto simp: loadFeatureList_def)

lemma loadFeatureList_file: "featureListFile (snd (loadFeatureList m)) = featureListFile m"
  by (cases m rule: loadFeatureList_cases) auto

lemma loadFeatureList_idem:
  "fst (loadFeatureList (snd (loadFeatureList m))) = fst (loadFeatureList m)"
  by (cases "featureList m"; cases "featureListFile m")
     (auto simp: loadFeatureList_def)

lemma markFeatureComplete_rejects:
  assumes "(\<exists>s\<in>set vs. \<not> passed s)
           \<or> (\<forall>l. visibleList m = Inr l
                  \<longrightarrow> List.find (\<lambda>f. feature_id f = ident) (features l) = None)"
  shows "\<exists>e. markFeatureComplete now ident vs m = (Inl e, snd (loadFeatureList m))"
proof (cases m rule: loadFeatureList_cases)
  case (fail e)
  then show ?thesis by (simp add: markFeatureComplete_def)
next
  case (ok l)
  show ?thesis
  proof (cases "List.find (\<lambda>f. feature_id f = ident) (features l)")
    case None
    with ok show ?thesis by (simp add: markFeatureComplete_def)
  next
    case (Some f)
    with ok assms have "\<not> list_all passed vs"
      by (auto simp: visibleList_def list_all_iff)
    with ok Some show ?thesis by (simp add: markFeatureComplete_def)
  qed
qed

lemma markFeatureComplete_accepts:
  assumes load: "loadFeatureList m = (Inr l, m1)"
    and found: "List.find (\<lambda>f. feature_id f = ident) (features l) = Some f"
    and ok: "list_all passed vs"
  shows "\<exists>pre post l' m2 res.
           markFeatureComplete now ident vs m = (res, m2)
         \<and> features l = pre @ f # post \<and> (\<forall>g\<in>set pre. feature_id g \<noteq> ident)
         \<and> featureList m2 = Some l'
         \<and> features l' = pre @ completedRecord now vs f # post
         \<and> completedFeatures l' = length (filter feature_passes (features l'))
         \<and> (if featureListWritable m
             then res = Inr () \<and> featureListFile m2 = Holds l'
             else res = Inl WriteFailed \<and> featureListFile m2 = featureListFile m)"
proof -
  let ?h = "\<lambda>f. f\<lparr> feature_passes := True, completedAt := Some now,
                    verificationNotes := Some (verificationNotesOf vs) \<rparr>"
  from updateFirst_split [OF found, of ?h] obtain pre post where
    split: "features l = pre @ f # post" "\<forall>g\<in>set pre. feature_id g \<noteq> ident"
      "updateFirst (\<lambda>f. feature_id f = ident) ?h (features l) = pre @ ?h f # post"
    by blast
  have h: "?h f = completedRecord now vs f"
    by (simp add: completedRecord_def verificationNotesOf_all_passed [OF ok])
  have w: "featureListWritable m1 = featureListWritable m" "featureListFile m1 = featureListFile m"
    using load by (cases m rule: loadFeatureList_cases; auto)+
  show ?thesis
    using load found ok split h w
    by (cases "featureListWritable m")
       (auto simp: markFeatureComplete_def saveFeatureList_def Let_def)
qed


text \<open>
  Claim C3. \<open>markFeatureComplete\<close> is guarded. If some verification step reports failure,
  or the id names no feature of the collection the manager sees, the call raises: the
  result is an error, the file is as before, the manager sees the same collection as
  before (the only change of state is that a list read from the file is now cached),
  and the error is the not-found error when the id is unknown and the
  verification error when the feature exists but a step failed. If the feature exists
  and every step reports success, the first record with that id is replaced by the
  same record with \<open>passes\<close> true, the completion time stamped and the notes
  \<open>step: PASS\<close> joined by newlines, every other record is untouched, and the cached
  completed-count is the recount of passing features; the list reaches the file too
  unless the write fails, in which case the write error propagates.
\<close>

theorem markFeatureComplete_guarded:
  "(((\<exists>s\<in>set vs. \<not> passed s)
       \<or> (\<forall>l. visibleList m = Inr l
              \<longrightarrow> List.find (\<lambda>f. feature_id f = ident) (features l) = None))
      \<longrightarrow> (\<exists>e. markFeatureComplete now ident vs m = (Inl e, snd (loadFeatureList m)))
        \<and> featureListFile (snd (markFeatureComplete now ident vs m)) = featureListFile m
        \<and> visibleList (snd (markFeatureComplete now ident vs m)) = visibleList m)
   \<and> (\<forall>l. visibleList m = Inr l
            \<and> List.find (\<lambda>f. feature_id f = ident) (features l) = None
          \<longrightarrow> fst (markFeatureComplete now ident vs m) = Inl (FeatureNotFound ident))
   \<and> (\<forall>l f. visibleList m = Inr l
            \<and> List.find (\<lambda>f. feature_id f = ident) (features l) = Some f
            \<and> (\<exists>s\<in>set vs. \<not> passed s)
          \<longrightarrow> fst (markFeatureComplete now ident vs m) = Inl VerificationIncomplete)
   \<and> (\<forall>l f. visibleList m = Inr l
            \<and> List.find (\<lambda>f. feature_id f = ident) (features l) = Some f
            \<and> list_all passed vs
          \<longrightarrow> (\<exists>pre post l' m2 res.
                 markFeatureComplete now ident vs m = (res, m2)
               \<and> features l = pre @ f # post \<and> (\<forall>g\<in>set pre. feature_id g \<noteq> ident)
               \<and> featureList m2 = Some l'
               \<and> features l' = pre @ completedRecord now vs f # post
               \<and> completedFeatures l' = length (filter feature_passes (features l'))
               \<and> (if featureListWritable m
                   then res = Inr () \<and> featureListFile m2 = Holds l'
                   else res = Inl WriteFailed \<and> featureListFile m2 = featureListFile m)))"
proof (intro conjI impI allI)
  assume bad: "(\<exists>s\<in>set vs. \<not> passed s)
       \<or> (\<forall>l. visibleList m = Inr l
              \<longrightarrow> List.find (\<lambda>f. feature_id f = ident) (features l) = None)"
  from markFeatureComplete_rejects [OF bad, of now]
  obtain e where e: "markFeatureComplete now ident vs m = (Inl e, snd (loadFeatureList m))"
    by blast
  then show "\<exists>e. markFeatureComplete now ident vs m = (Inl e, snd (loadFeatureList m))"
    by blast
  from e show "featureListFile (snd (markFeatureComplete now ident vs m)) = featureListFile m"
    by (simp add: loadFeatureList_file)
  from e show "visibleList (snd (markFeatureComplete now ident vs m)) = visibleList m"
    by (simp add: visibleList_def loadFeatureList_idem)
next
  fix l
  assume "visibleList m = Inr l
            \<and> List.find (\<lambda>f. feature_id f = ident) (features l) = None"
  then show "fst (markFeatureComplete now ident vs m) = Inl (FeatureNotFound ident)"
    by (cases m rule: loadFeatureList_cases)
       (auto simp: visibleList_def markFeatureComplete_def)
next
  fix l f
  assume "visibleList m = Inr l
            \<and> List.find (\<lambda>f. feature_id f = ident) (features l) = Some f
            \<and> (\<exists>s\<in>set vs. \<not> passed s)"
  then show "fst (markFeatureComplete now ident vs m) = Inl VerificationIncomplete"
    by (cases m rule: loadFeatureList_cases)
       (auto simp: visibleList_def markFeatureComplete_def list_all_iff)
next
  fix l f
  assume a: "visibleList m = Inr l
            \<and> List.find (\<lambda>f. feature_id f = ident) (features l) = Some f
            \<and> list_all passed vs"
  then have "loadFeatureList m = (Inr l, snd (loadFeatureList m))"
    by (simp add: visibleList_def prod_eq_iff)
  from markFeatureComplete_accepts [OF this, of ident f vs now] a
  show "\<exists>pre post l' m2 res.
                 markFeatureComplete now ident vs m = (res, m2)
               \<and> features l = pre @ f # post \<and> (\<forall>g\<in>set pre. feature_id g \<noteq> ident)
               \<and> featureList m2 = Some l'
               \<and> features l' = pre @ completedRecord now vs f # post
               \<and> completedFeatures l' = length (filter feature_passes (features l'))
               \<and> (if featureListWritable m
                   then res = Inr () \<and> featureListFile m2 = Holds l'
                   else res = Inl WriteFailed \<and> featureListFile m2 = featureListFile m)"
    by blast
qed

theorem markFeatureComplete_guarded_witness:
  "(\<exists>s\<in>set [stepOk ''open'', stepBad ''save'']. \<not> passed s)
   \<and> markFeatureComplete 7 ''F1'' [stepOk ''open'', stepBad ''save''] (managerHolding scenarioA)
       = (Inl VerificationIncomplete, snd (loadFeatureList (managerHolding scenarioA)))
   \<and> featureListFile (snd (markFeatureComplete 7 ''F1'' [stepOk ''open'', stepBad ''save'']
        (managerHolding scenarioA))) = Holds (listOf scenarioA)
   \<and> visibleList (managerHolding scenarioA) = Inr (listOf scenarioA)
   \<and> List.find (\<lambda>f. feature_id f = ''F1'') (features (listOf scenarioA))
       = Some (mkFeature ''F1'' 10 None False)
   \<and> list_all passed [stepOk ''open'', stepOk ''save'']
   \<and> (\<exists>l' m2. markFeatureComplete 7 ''F1'' [stepOk ''open'', stepOk ''save'']
               (managerHolding scenarioA) = (Inr (), m2)
          \<and> featureList m2 = Some l' \<and> featureListFile m2 = Holds l'
          \<and> features l' = [completedRecord 7 [stepOk ''open'', stepOk ''save'']
                               (mkFeature ''F1'' 10 None False),
                            mkFeature ''F2'' 5 (Some [''F1'']) False]
          \<and> completedFeatures l' = 1)"
proof -
  let ?m = "managerHolding scenarioA"
  let ?bad = "[stepOk ''open'', stepBad ''save'']"
  let ?good = "[stepOk ''open'', stepOk ''save'']"
  let ?F1 = "mkFeature ''F1'' 10 None False"
  have bad: "\<exists>s\<in>set ?bad. \<not> passed s" by (simp add: stepBad_def)
  have vis: "visibleList ?m = Inr (listOf scenarioA)"
    by (simp add: visibleList_def loadFeatureList_def managerHolding_def)
  have fnd: "List.find (\<lambda>f. feature_id f = ''F1'') (features (listOf scenarioA)) = Some ?F1"
    by (simp add: listOf_def scenarioA_def mkFeature_def)
  have good: "list_all passed ?good" by (simp add: stepOk_def)
  have w: "featureListWritable ?m" and fl: "featureListFile ?m = Holds (listOf scenarioA)"
    by (simp_all add: managerHolding_def)
  note thm_bad = markFeatureComplete_guarded [of ?bad ?m "''F1''" 7]
  note thm_good = markFeatureComplete_guarded [of ?good ?m "''F1''" 7]
  from thm_bad bad vis fnd
  have r1: "markFeatureComplete 7 ''F1'' ?bad ?m
       = (Inl VerificationIncomplete, snd (loadFeatureList ?m))"
    and r2: "featureListFile (snd (markFeatureComplete 7 ''F1'' ?bad ?m)) = Holds (listOf scenarioA)"
    by (auto simp: fl)
  from thm_good vis fnd good w
  obtain pre post l' m2 where g:
      "markFeatureComplete 7 ''F1'' ?good ?m = (Inr (), m2)"
      "features (listOf scenarioA) = pre @ ?F1 # post"
      "\<forall>g\<in>set pre. feature_id g \<noteq> ''F1''"
      "featureList m2 = Some l'" "featureListFile m2 = Holds l'"
      "features l' = pre @ completedRecord 7 ?good ?F1 # post"
      "completedFeatures l' = length (filter feature_passes (features l'))"
    by auto
  from g(2,3) have "pre = [] \<and> post = [mkFeature ''F2'' 5 (Some [''F1'']) False]"
    by (cases pre) (auto simp: listOf_def scenarioA_def mkFeature_def Cons_eq_append_conv)
  with g have l': "features l' = [completedRecord 7 ?good ?F1,
                                  mkFeature ''F2'' 5 (Some [''F1'']) False]"
    by simp
  with g(7) have "completedFeatures l' = 1"
    by (simp add: completedRecord_def mkFeature_def)
  with bad r1 r2 vis fnd good g l' show ?thesis by blast
qed


section \<open>The missing store\<close>

text \<open>
  Claim C8, as the code has it. \<open>loadFeatureList\<close> has no guard for an absent file, and
  every method of the manager starts by loading. So when \<open>feature_list.json\<close> is missing
  and the manager has no list cached, the read-only queries fail with the read error
  exactly as the mutating call does, and the manager is left as it was; none of them
  answers with an empty or zero result.
\<close>

theorem missing_store_every_call_fails:
  assumes "featureList m = None" and "featureListFile m = Missing"
  shows "getNextIncompleteFeature m = (Inl ENOENT, m)
       \<and> getIncompleteFeatureCount m = (Inl ENOENT, m)
       \<and> markFeatureComplete now ident vs m = (Inl ENOENT, m)"
  using assms
  by (simp add: getNextIncompleteFeature_def getIncompleteFeatureCount_def
        markFeatureComplete_def loadFeatureList_def)

theorem missing_store_every_call_fails_witness:
  "featureList managerWithoutFile = None \<and> featureListFile managerWithoutFile = Missing
   \<and> getNextIncompleteFeature managerWithoutFile = (Inl ENOENT, managerWithoutFile)
   \<and> getIncompleteFeatureCount managerWithoutFile = (Inl ENOENT, managerWithoutFile)
   \<and> markFeatureComplete 7 ''F1'' [stepOk ''open''] managerWithoutFile
        = (Inl ENOENT, managerWithoutFile)"
proof -
  have h1: "featureList managerWithoutFile = None"
    and h2: "featureListFile managerWithoutFile = Missing"
    by (simp_all add: managerWithoutFile_def)
  from missing_store_every_call_fails [OF h1 h2, of 7 "''F1''" "[stepOk ''open'']"] h1 h2
  show ?thesis by blast
qed

text \<open>The claim as stated fails on the manager without a file: the two read-only
  queries return the read error, not "no feature" and not the count zero.\<close>

theorem missing_store_queries_counterexample:
  "fst (getNextIncompleteFeature managerWithoutFile) = Inl ENOENT
   \<and> fst (getNextIncompleteFeature managerWithoutFile) \<noteq> Inr None
   \<and> fst (getIncompleteFeatureCount managerWithoutFile) = Inl ENOENT
   \<and> fst (getIncompleteFeatureCount managerWithoutFile) \<noteq> Inr 0"
  by (simp add: getNextIncompleteFeature_def getIncompleteFeatureCount_def
        loadFeatureList_def managerWithoutFile_def)


section \<open>Properties of the test ledger\<close>

lemma loadSuite_stored: "testsFile d = Holds suite \<Longrightarrow> loadSuite now d = (suite, d)"
  by (simp add: loadSuite_def)

lemma loadSuite_paths: "paths (snd (loadSuite now d)) = paths d"
  by (cases "testsFile d")
     (simp_all add: loadSuite_def initialize_def saveSuite_def Let_def)

lemma markTestPassing_True_evidence:
  assumes "fst (markTestPassing now tid ev d) = Inr True"
  shows "evidenceAcceptable d ev"
proof -
  obtain suite d1 where l: "loadSuite now d = (suite, d1)" by (cases "loadSuite now d")
  then have p: "paths d1 = paths d" using loadSuite_paths [of now d] by simp
  from assms l show ?thesis
    by (auto simp: markTestPassing_def evidenceAcceptable_def existsSync_def readFileSync_def p
          split: option.splits if_splits sum.splits fs_entry.splits)
qed

lemma markTestPassing_not_True_unchanged:
  assumes "fst (markTestPassing now tid ev d) \<noteq> Inr True"
  shows "snd (markTestPassing now tid ev d) = snd (loadSuite now d)"
proof -
  obtain suite d1 where l: "loadSuite now d = (suite, d1)" by (cases "loadSuite now d")
  from assms l show ?thesis
    by (auto simp: markTestPassing_def Let_def
          split: option.splits if_splits sum.splits)
qed

lemma markTestPassing_rejected:
  assumes "evidenceRejected d ev"
  shows "markTestPassing now tid ev d = (Inr False, snd (loadSuite now d))"
proof -
  obtain suite d1 where l: "loadSuite now d = (suite, d1)" by (cases "loadSuite now d")
  then have p: "paths d1 = paths d" using loadSuite_paths [of now d] by simp
  from assms l show ?thesis
    by (auto simp: markTestPassing_def evidenceRejected_def existsSync_def readFileSync_def p
          split: option.splits if_splits sum.splits fs_entry.splits)
qed

lemma length_updateFirst: "length (updateFirst P h xs) = length xs"
  by (induction xs) simp_all

lemma find_updateFirst:
  assumes "List.find P xs = Some x" and "P (h x)"
  shows "List.find P (updateFirst P h xs) = Some (h x)"
  using assms by (induction xs) (auto split: if_splits)

lemma markTestPassing_accepted:
  assumes "testsFile d = Holds suite"
    and "List.find (\<lambda>t. test_id t = tid) (tests suite) = Some t"
    and "evidenceAcceptable d ev"
  shows "fst (markTestPassing now tid ev d) = Inr True"
    and "testsWritable d \<Longrightarrow>
         \<exists>suite'. testsFile (snd (markTestPassing now tid ev d)) = Holds suite'
           \<and> List.find (\<lambda>t. test_id t = tid) (tests suite') = Some (verifiedRecord now ev t)
           \<and> length (tests suite') = length (tests suite)"
proof -
  let ?h = "\<lambda>t. t\<lparr> test_passes := True, verified_at := Some now,
                screenshot_path := Some (evidence_screenshot_path ev),
                console_log_path := Some (evidence_console_log_path ev),
                test_notes := evidence_notes ev \<rparr>"
  have l: "loadSuite now d = (suite, d)" using assms(1) by (rule loadSuite_stored)
  from assms(3) obtain content where
    c: "paths d (evidence_screenshot_path ev) \<noteq> None"
       "paths d (evidence_console_log_path ev) = Some (File content)"
       "\<not> str_includes content ''ERROR''" "\<not> str_includes content ''FAIL''"
    by (auto simp: evidenceAcceptable_def split: option.splits fs_entry.splits)
  from l c assms(2) show "fst (markTestPassing now tid ev d) = Inr True"
    by (auto simp: markTestPassing_def existsSync_def readFileSync_def Let_def)
  assume w: "testsWritable d"
  have f: "List.find (\<lambda>t. test_id t = tid) (updateFirst (\<lambda>t. test_id t = tid) ?h (tests suite))
             = Some (?h t)"
    using assms(2) by (rule find_updateFirst) (use assms(2) in \<open>auto dest: find_Some_holds\<close>)
  have len: "length (updateFirst (\<lambda>t. test_id t = tid) ?h (tests suite)) = length (tests suite)"
    by (rule length_updateFirst)
  from l c assms(2) w f show "\<exists>suite'. testsFile (snd (markTestPassing now tid ev d)) = Holds suite'
           \<and> List.find (\<lambda>t. test_id t = tid) (tests suite') = Some (verifiedRecord now ev t)
           \<and> length (tests suite') = length (tests suite)"
    by (auto simp: markTestPassing_def existsSync_def readFileSync_def Let_def saveSuite_def
          verifiedRecord_def len)
qed


text \<open>
  Claim C2. \<open>markTestPassing\<close> is gated by the evidence, whatever the caller claims.
  It answers \<open>true\<close> only if the screenshot path exists, the console-log path exists and
  the log's text holds neither \<open>ERROR\<close> nor \<open>FAIL\<close>. If one of the three conditions
  fails it answers \<open>false\<close>. Whenever the answer is not \<open>true\<close>, a stored ledger is
  left exactly as it was, so the test record keeps its \<open>passes\<close> flag and its
  verification fields; hence a stored ledger that differs after the call was changed
  under acceptable evidence. And acceptance is possible: for a test of a stored ledger
  and acceptable evidence the answer is \<open>true\<close>, and (the write succeeding) the
  ledger then holds that test with \<open>passes\<close> true and the evidence recorded.
\<close>

theorem markTestPassing_evidence_gated:
  "(fst (markTestPassing now tid ev d) = Inr True \<longrightarrow> evidenceAcceptable d ev)
   \<and> (evidenceRejected d ev \<longrightarrow> fst (markTestPassing now tid ev d) = Inr False)
   \<and> (\<forall>suite. testsFile d = Holds suite \<and> fst (markTestPassing now tid ev d) \<noteq> Inr True
          \<longrightarrow> snd (markTestPassing now tid ev d) = d)
   \<and> (\<forall>suite. testsFile d = Holds suite
            \<and> testsFile (snd (markTestPassing now tid ev d)) \<noteq> Holds suite
          \<longrightarrow> evidenceAcceptable d ev)
   \<and> (\<forall>suite t. testsFile d = Holds suite
            \<and> List.find (\<lambda>t. test_id t = tid) (tests suite) = Some t
            \<and> evidenceAcceptable d ev
          \<longrightarrow> fst (markTestPassing now tid ev d) = Inr True
            \<and> (testsWritable d \<longrightarrow>
                 (\<exists>suite'. testsFile (snd (markTestPassing now tid ev d)) = Holds suite'
                    \<and> List.find (\<lambda>t. test_id t = tid) (tests suite')
                        = Some (verifiedRecord now ev t)
                    \<and> length (tests suite') = length (tests suite))))"
proof (intro conjI allI impI)
  assume "fst (markTestPassing now tid ev d) = Inr True"
  then show "evidenceAcceptable d ev" by (rule markTestPassing_True_evidence)
next
  assume "evidenceRejected d ev"
  then show "fst (markTestPassing now tid ev d) = Inr False"
    by (simp add: markTestPassing_rejected)
next
  fix suite
  assume "testsFile d = Holds suite \<and> fst (markTestPassing now tid ev d) \<noteq> Inr True"
  then show "snd (markTestPassing now tid ev d) = d"
    by (simp add: markTestPassing_not_True_unchanged loadSuite_stored)
next
  fix suite
  assume a: "testsFile d = Holds suite
            \<and> testsFile (snd (markTestPassing now tid ev d)) \<noteq> Holds suite"
  then have "snd (markTestPassing now tid ev d) \<noteq> d" by auto
  with a have "fst (markTestPassing now tid ev d) = Inr True"
    using markTestPassing_not_True_unchanged [of now tid ev d]
    by (auto simp: loadSuite_stored)
  then show "evidenceAcceptable d ev" by (rule markTestPassing_True_evidence)
next
  fix suite t
  assume a: "testsFile d = Holds suite
            \<and> List.find (\<lambda>t. test_id t = tid) (tests suite) = Some t
            \<and> evidenceAcceptable d ev"
  then show "fst (markTestPassing now tid ev d) = Inr True"
    by (blast intro: markTestPassing_accepted(1))
  assume "testsWritable d"
  with a show "\<exists>suite'. testsFile (snd (markTestPassing now tid ev d)) = Holds suite'
                    \<and> List.find (\<lambda>t. test_id t = tid) (tests suite')
                        = Some (verifiedRecord now ev t)
                    \<and> length (tests suite') = length (tests suite)"
    by (blast intro: markTestPassing_accepted(2))
qed

theorem markTestPassing_evidence_gated_witness:
  "evidenceRejected ledgerC (evidenceOf ''shots/none.png'' ''logs/t1.log'')
   \<and> markTestPassing 9 ''T1'' (evidenceOf ''shots/none.png'' ''logs/t1.log'') ledgerC
       = (Inr False, ledgerC)
   \<and> evidenceRejected ledgerC (evidenceOf ''shots/t1.png'' ''logs/bad.log'')
   \<and> markTestPassing 9 ''T1'' (evidenceOf ''shots/t1.png'' ''logs/bad.log'') ledgerC
       = (Inr False, ledgerC)
   \<and> testsFile ledgerC = Holds suiteC
   \<and> List.find (\<lambda>t. test_id t = ''T1'') (tests suiteC) = Some testT1
   \<and> evidenceAcceptable ledgerC (evidenceOf ''shots/t1.png'' ''logs/t1.log'')
   \<and> testsWritable ledgerC
   \<and> fst (markTestPassing 9 ''T1'' (evidenceOf ''shots/t1.png'' ''logs/t1.log'') ledgerC)
       = Inr True
   \<and> (\<exists>suite'. testsFile (snd (markTestPassing 9 ''T1''
                     (evidenceOf ''shots/t1.png'' ''logs/t1.log'') ledgerC)) = Holds suite'
         \<and> List.find (\<lambda>t. test_id t = ''T1'') (tests suite')
             = Some (verifiedRecord 9 (evidenceOf ''shots/t1.png'' ''logs/t1.log'') testT1))"
proof -
  let ?noShot = "evidenceOf ''shots/none.png'' ''logs/t1.log''"
  let ?badLog = "evidenceOf ''shots/t1.png'' ''logs/bad.log''"
  let ?fine = "evidenceOf ''shots/t1.png'' ''logs/t1.log''"
  have r1: "evidenceRejected ledgerC ?noShot"
    by (simp add: evidenceRejected_def ledgerC_def evidenceOf_def)
  have r2: "evidenceRejected ledgerC ?badLog"
    by (simp add: evidenceRejected_def ledgerC_def evidenceOf_def)
  have stored: "testsFile ledgerC = Holds suiteC" and w: "testsWritable ledgerC"
    by (simp_all add: ledgerC_def)
  have fnd: "List.find (\<lambda>t. test_id t = ''T1'') (tests suiteC) = Some testT1"
    by (simp add: suiteC_def testT1_def)
  have acc: "evidenceAcceptable ledgerC ?fine"
    by (simp add: evidenceAcceptable_def ledgerC_def evidenceOf_def)
  note g1 = markTestPassing_evidence_gated [of 9 "''T1''" ?noShot ledgerC]
  note g2 = markTestPassing_evidence_gated [of 9 "''T1''" ?badLog ledgerC]
  note g3 = markTestPassing_evidence_gated [of 9 "''T1''" ?fine ledgerC]
  from g1 r1 stored have a1: "markTestPassing 9 ''T1'' ?noShot ledgerC = (Inr False, ledgerC)"
    by (simp add: prod_eq_iff)
  from g2 r2 stored have a2: "markTestPassing 9 ''T1'' ?badLog ledgerC = (Inr False, ledgerC)"
    by (simp add: prod_eq_iff)
  from g3 stored fnd acc w
  have a3: "fst (markTestPassing 9 ''T1'' ?fine ledgerC) = Inr True"
    and a4: "\<exists>suite'. testsFile (snd (markTestPassing 9 ''T1'' ?fine ledgerC)) = Holds suite'
         \<and> List.find (\<lambda>t. test_id t = ''T1'') (tests suite') = Some (verifiedRecord 9 ?fine testT1)"
    by blast+
  from r1 a1 r2 a2 stored fnd acc w a3 a4 show ?thesis by blast
qed

section \<open>Reading the ledger writes it\<close>

text \<open>
  Claim C10. \<open>loadSuite\<close> is a read that writes. When \<open>tests.json\<close> is missing or does
  not parse (and the disk takes the write), \<open>loadSuite\<close> returns the fresh suite of
  \<open>initialize\<close>, version 1.0.0 with no tests, and leaves that suite on disk in place of
  what was there. Every read-only query starts with \<open>loadSuite\<close>, so \<open>getTest\<close>,
  \<open>getFailingTests\<close>, \<open>getNextTest\<close> and \<open>getProgressSummary\<close> return their empty
  answers and leave the same replaced file behind.
\<close>

theorem loadSuite_replaces_broken_ledger:
  assumes "testsFile d = Missing \<or> testsFile d = Malformed" and "testsWritable d"
  shows "loadSuite now d = (emptySuite now, d\<lparr>testsFile := Holds (emptySuite now)\<rparr>)
       \<and> getTest now tid d = (None, d\<lparr>testsFile := Holds (emptySuite now)\<rparr>)
       \<and> getFailingTests now d = ([], d\<lparr>testsFile := Holds (emptySuite now)\<rparr>)
       \<and> getNextTest now d = (None, d\<lparr>testsFile := Holds (emptySuite now)\<rparr>)
       \<and> snd (getProgressSummary now d) = d\<lparr>testsFile := Holds (emptySuite now)\<rparr>
       \<and> summary_total (fst (getProgressSummary now d)) = 0
       \<and> summary_passed (fst (getProgressSummary now d)) = 0
       \<and> summary_failed (fst (getProgressSummary now d)) = 0"
proof -
  have l: "loadSuite now d = (emptySuite now, d\<lparr>testsFile := Holds (emptySuite now)\<rparr>)"
    using assms
    by (auto simp: loadSuite_def initialize_def saveSuite_def emptySuite_def Let_def)
  have "tests (emptySuite now) = []" by (simp add: emptySuite_def)
  with l show ?thesis
    by (simp add: getTest_def getFailingTests_def getNextTest_def getProgressSummary_def)
qed

theorem loadSuite_replaces_broken_ledger_witness:
  "(testsFile corruptLedger = Missing \<or> testsFile corruptLedger = Malformed)
   \<and> testsWritable corruptLedger
   \<and> getTest 5 ''T1'' corruptLedger
       = (None, corruptLedger\<lparr>testsFile := Holds (emptySuite 5)\<rparr>)
   \<and> getFailingTests 5 corruptLedger
       = ([], corruptLedger\<lparr>testsFile := Holds (emptySuite 5)\<rparr>)
   \<and> (testsFile absentLedger = Missing \<or> testsFile absentLedger = Malformed)
   \<and> testsWritable absentLedger
   \<and> getNextTest 5 absentLedger
       = (None, absentLedger\<lparr>testsFile := Holds (emptySuite 5)\<rparr>)
   \<and> snd (getProgressSummary 5 absentLedger)
       = absentLedger\<lparr>testsFile := Holds (emptySuite 5)\<rparr>"
proof -
  have c: "testsFile corruptLedger = Missing \<or> testsFile corruptLedger = Malformed"
    and cw: "testsWritable corruptLedger"
    by (simp_all add: corruptLedger_def)
  have a: "testsFile absentLedger = Missing \<or> testsFile absentLedger = Malformed"
    and aw: "testsWritable absentLedger"
    by (simp_all add: absentLedger_def)
  from loadSuite_replaces_broken_ledger [OF c cw, of 5 "''T1''"]
       loadSuite_replaces_broken_ledger [OF a aw, of 5 "''T1''"] c cw a aw
  show ?thesis by blast
qed


section \<open>Properties of the human backlog\<close>

lemma find_filter_head:
  "filter Q xs \<noteq> [] \<Longrightarrow> List.find Q xs = Some (filter Q xs ! 0)"
  by (induction xs) auto

lemma find_None_filter: "filter Q xs = [] \<Longrightarrow> List.find Q xs = None"
  by (induction xs) (auto split: if_splits)

lemma find_conj_None: "filter Q xs = [] \<Longrightarrow> List.find (\<lambda>x. Q x \<and> P x) xs = None"
  by (induction xs) (auto split: if_splits)

lemma getNextItem_spec: "getNextItem d = specNextItem (loadBacklog d)"
proof (cases "filter (\<lambda>item. \<not> completed item) (loadBacklog d) = []")
  case True
  then show ?thesis
    by (simp add: getNextItem_def specNextItem_def precedence_def Let_def find_conj_None find_None_filter)
next
  case False
  from find_filter_head [OF False] False show ?thesis
    by (simp add: getNextItem_def specNextItem_def precedence_def priorityOrder_def Let_def
          find_filter_conj conj_commute
        split: option.splits)
qed

lemma getNextItem_None:
  "getNextItem d = None \<longleftrightarrow> (\<forall>i\<in>set (loadBacklog d). completed i)"
  by (auto simp: getNextItem_def Let_def filter_empty_conv split: option.splits)

lemma firstMatch_sound:
  "firstMatch rules backlog = Some x \<Longrightarrow> x \<in> set backlog \<and> \<not> completed x"
  by (induction rules) (auto split: option.splits dest: find_Some_holds)


text \<open>
  Claim C7. \<open>getNextItem\<close> computes the precedence of the specification over the
  items not yet completed, short-circuiting at the first rule with a match: an item
  in progress (the first in file order), else the first backlog-status item scanning
  the priorities critical, high, medium, low, else the first item of those priorities
  whatever its status, else the first incomplete item in file order. The answer is
  an incomplete item of the backlog whenever there is one, and null exactly when
  every item is completed (in particular for a missing or unparseable file, which
  loads as the empty backlog).
\<close>

theorem getNextItem_precedence:
  "getNextItem d = specNextItem (loadBacklog d)
   \<and> (getNextItem d = None \<longleftrightarrow> (\<forall>i\<in>set (loadBacklog d). completed i))
   \<and> ((\<exists>i\<in>set (loadBacklog d). \<not> completed i)
        \<longrightarrow> (\<exists>x. getNextItem d = Some x \<and> x \<in> set (loadBacklog d) \<and> \<not> completed x))
   \<and> (\<forall>x. List.find (\<lambda>i. \<not> completed i \<and> item_status i = ''in_progress'') (loadBacklog d)
              = Some x
          \<longrightarrow> getNextItem d = Some x)
   \<and> ((\<forall>i\<in>set (loadBacklog d). \<not> completed i
            \<longrightarrow> item_status i \<noteq> ''in_progress'' \<and> item_priority i \<notin> set priorityOrder)
        \<longrightarrow> getNextItem d = List.find (\<lambda>i. \<not> completed i) (loadBacklog d))"
proof (intro conjI allI impI)
  show spec: "getNextItem d = specNextItem (loadBacklog d)" by (rule getNextItem_spec)
  show none: "getNextItem d = None \<longleftrightarrow> (\<forall>i\<in>set (loadBacklog d). completed i)"
    by (rule getNextItem_None)
  {
    assume "\<exists>i\<in>set (loadBacklog d). \<not> completed i"
    with none obtain x where x: "getNextItem d = Some x" by (cases "getNextItem d") auto
    with spec have "firstMatch precedence (loadBacklog d) = Some x"
      by (simp add: specNextItem_def)
    from firstMatch_sound [OF this] x
    show "\<exists>x. getNextItem d = Some x \<and> x \<in> set (loadBacklog d) \<and> \<not> completed x"
      by blast
  }
  {
    fix x
    assume "List.find (\<lambda>i. \<not> completed i \<and> item_status i = ''in_progress'') (loadBacklog d)
              = Some x"
    then show "getNextItem d = Some x"
      by (simp add: spec specNextItem_def precedence_def)
  }
  {
    assume a: "\<forall>i\<in>set (loadBacklog d). \<not> completed i
            \<longrightarrow> item_status i \<noteq> ''in_progress'' \<and> item_priority i \<notin> set priorityOrder"
    have n: "List.find (\<lambda>i. \<not> completed i \<and> P i \<and> item_priority i = p) (loadBacklog d) = None"
      if "p \<in> set priorityOrder" for P p
      using a that by (auto simp: find_None_iff)
    have n': "List.find (\<lambda>i. \<not> completed i \<and> item_priority i = p) (loadBacklog d) = None"
      if "p \<in> set priorityOrder" for p
      using a that by (auto simp: find_None_iff)
    have n0: "List.find (\<lambda>i. \<not> completed i \<and> item_status i = ''in_progress'') (loadBacklog d)
                = None"
      using a by (auto simp: find_None_iff)
    show "getNextItem d = List.find (\<lambda>i. \<not> completed i) (loadBacklog d)"
      by (simp add: spec specNextItem_def precedence_def n n' n0 priorityOrder_def
            split: option.splits)
  }
qed

theorem getNextItem_precedence_witness:
  "(\<exists>i\<in>set (loadBacklog (storeOf mixedBacklog)). \<not> completed i)
   \<and> List.find (\<lambda>i. \<not> completed i \<and> item_status i = ''in_progress'')
        (loadBacklog (storeOf mixedBacklog))
       = Some (mkItem ''4'' ''medium'' ''in_progress'' False)
   \<and> getNextItem (storeOf mixedBacklog) = Some (mkItem ''4'' ''medium'' ''in_progress'' False)
   \<and> list_all completed (loadBacklog (storeOf doneBacklog))
   \<and> getNextItem (storeOf doneBacklog) = None"
proof -
  have l: "loadBacklog (storeOf mixedBacklog) = mixedBacklog"
    and l': "loadBacklog (storeOf doneBacklog) = doneBacklog"
    by (simp_all add: loadBacklog_def storeOf_def)
  have some: "\<exists>i\<in>set (loadBacklog (storeOf mixedBacklog)). \<not> completed i"
    unfolding l by (simp add: mixedBacklog_def mkItem_def)
  have fnd: "List.find (\<lambda>i. \<not> completed i \<and> item_status i = ''in_progress'')
        (loadBacklog (storeOf mixedBacklog))
       = Some (mkItem ''4'' ''medium'' ''in_progress'' False)"
    unfolding l by (simp add: mixedBacklog_def mkItem_def)
  have all: "\<forall>i\<in>set (loadBacklog (storeOf doneBacklog)). completed i"
    unfolding l' by (simp add: doneBacklog_def mkItem_def)
  from getNextItem_precedence [of "storeOf mixedBacklog"] fnd
  have r1: "getNextItem (storeOf mixedBacklog) = Some (mkItem ''4'' ''medium'' ''in_progress'' False)"
    by blast
  from getNextItem_precedence [of "storeOf doneBacklog"] all
  have r2: "getNextItem (storeOf doneBacklog) = None"
    by blast
  from all have "list_all completed (loadBacklog (storeOf doneBacklog))"
    by (simp add: list_all_iff)
  with some fnd r1 r2 show ?thesis by blast
qed

subsection \<open>Where the backlog invariant is kept\<close>

lemma loadBacklog_saveBacklog:
  "loadBacklog (saveBacklog b d) = (if backlogWritable d then b else loadBacklog d)"
  by (simp add: saveBacklog_def loadBacklog_def)

lemma updateFirst_invariant:
  assumes "\<forall>i\<in>set xs. Q i" and "\<And>x. List.find P xs = Some x \<Longrightarrow> Q (h x)"
  shows "\<forall>i\<in>set (updateFirst P h xs). Q i"
proof (cases "List.find P xs")
  case None
  then have "updateFirst P h xs = xs"
    by (induction xs) (auto split: if_splits)
  with assms(1) show ?thesis by simp
next
  case (Some x)
  from updateFirst_split [OF Some, of h] obtain pre post where
    "xs = pre @ x # post" "updateFirst P h xs = pre @ h x # post"
    by blast
  with assms(1) assms(2) [OF Some] show ?thesis by auto
qed

text \<open>
  From a backlog on which the invariant holds, \<open>addItem\<close>, \<open>markComplete\<close> and
  \<open>addComment\<close> keep it; \<open>updateStatus\<close> to a status other than \<open>done\<close> and
  \<open>markBlocked\<close> keep it when the item they address is not completed.
\<close>

lemma backlogInvariant_kept:
  assumes inv: "backlogInvariant (loadBacklog d)"
  shows "backlogInvariant (loadBacklog (snd (addItem newId now ty p descr dt issue d)))"
    and "backlogInvariant (loadBacklog (snd (markComplete now ident d)))"
    and "backlogInvariant (loadBacklog (snd (addComment now ident who txt d)))"
    and "\<lbrakk>\<And>x. List.find (\<lambda>i. item_id i = ident) (loadBacklog d) = Some x \<Longrightarrow> \<not> completed x\<rbrakk>
           \<Longrightarrow> backlogInvariant (loadBacklog (snd (updateStatus now ident st d)))"
    and "\<lbrakk>\<And>x. List.find (\<lambda>i. item_id i = ident) (loadBacklog d) = Some x \<Longrightarrow> \<not> completed x\<rbrakk>
           \<Longrightarrow> backlogInvariant (loadBacklog (snd (markBlocked now ident reason d)))"
proof -
  let ?Q = "\<lambda>i. completed i \<longleftrightarrow> item_status i = ''done''"
  let ?P = "\<lambda>i. item_id i = ident"
  from inv have all: "\<forall>i\<in>set (loadBacklog d). ?Q i" by (simp add: backlogInvariant_def)
  show "backlogInvariant (loadBacklog (snd (addItem newId now ty p descr dt issue d)))"
    using all by (simp add: addItem_def Let_def loadBacklog_saveBacklog backlogInvariant_def)
  have dn: "\<forall>i\<in>set (updateFirst ?P
       (\<lambda>i. i\<lparr> item_status := ''done'', completed := True, completedDate := Some now \<rparr>)
       (loadBacklog d)). ?Q i"
    using all by (rule updateFirst_invariant) simp
  then show "backlogInvariant (loadBacklog (snd (markComplete now ident d)))"
    using all
    by (auto simp: markComplete_def updateStatus_def Let_def loadBacklog_saveBacklog
          backlogInvariant_def split: option.splits)
  have cm: "\<forall>i\<in>set (updateFirst ?P
       (\<lambda>i. i\<lparr> comments := comments i @
           [\<lparr> author = who, comment_timestamp = now, comment_text = txt \<rparr>] \<rparr>)
       (loadBacklog d)). ?Q i"
    using all by (rule updateFirst_invariant) (use all in \<open>auto dest: find_Some_holds\<close>)
  then show "backlogInvariant (loadBacklog (snd (addComment now ident who txt d)))"
    using all
    by (auto simp: addComment_def Let_def loadBacklog_saveBacklog
          backlogInvariant_def split: option.splits)
  {
    assume fresh: "\<And>x. List.find ?P (loadBacklog d) = Some x \<Longrightarrow> \<not> completed x"
    have "\<forall>i\<in>set (updateFirst ?P
       (\<lambda>i. if st = ''done''
              then i\<lparr> item_status := st, completed := True, completedDate := Some now \<rparr>
              else i\<lparr> item_status := st \<rparr>)
       (loadBacklog d)). ?Q i"
      using all by (rule updateFirst_invariant) (auto dest: fresh)
    then show "backlogInvariant (loadBacklog (snd (updateStatus now ident st d)))"
      using all
      by (auto simp: updateStatus_def Let_def loadBacklog_saveBacklog
            backlogInvariant_def split: option.splits)
    have "\<forall>i\<in>set (updateFirst ?P
       (\<lambda>i. i\<lparr> item_status := ''blocked'',
                comments := comments i @
                  [\<lparr> author = Agent, comment_timestamp = now,
                     comment_text = ''Blocked: '' @ reason \<rparr>] \<rparr>)
       (loadBacklog d)). ?Q i"
      using all by (rule updateFirst_invariant) (auto dest: fresh)
    then show "backlogInvariant (loadBacklog (snd (markBlocked now ident reason d)))"
      using all
      by (auto simp: markBlocked_def Let_def loadBacklog_saveBacklog
            backlogInvariant_def split: option.splits)
  }
qed

text \<open>
  Claim C9 at a concrete backlog. The only item is done and completed. Moving it to
  \<open>in_progress\<close> with \<open>updateStatus\<close> (or \<open>markInProgress\<close>), or blocking it with
  \<open>markBlocked\<close>, succeeds and stores an item whose status is no longer \<open>done\<close> while
  \<open>completed\<close> is still true: \<open>updateStatus\<close> sets \<open>completed\<close> when the new status is
  \<open>done\<close> and never clears it, and \<open>markBlocked\<close> does not touch it.
\<close>

theorem updateStatus_reopened_item_stays_completed:
  "map (\<lambda>i. (item_status i, completed i)) (loadBacklog (storeOf doneBacklog))
     = [(''done'', True)]
   \<and> fst (updateStatus 9 ''1'' ''in_progress'' (storeOf doneBacklog)) = True
   \<and> map (\<lambda>i. (item_status i, completed i))
        (loadBacklog (snd (updateStatus 9 ''1'' ''in_progress'' (storeOf doneBacklog))))
     = [(''in_progress'', True)]
   \<and> map (\<lambda>i. (item_status i, completed i))
        (loadBacklog (snd (markInProgress 9 ''1'' (storeOf doneBacklog))))
     = [(''in_progress'', True)]
   \<and> fst (markBlocked 9 ''1'' ''waiting for input'' (storeOf doneBacklog)) = True
   \<and> map (\<lambda>i. (item_status i, completed i))
        (loadBacklog (snd (markBlocked 9 ''1'' ''waiting for input'' (storeOf doneBacklog))))
     = [(''blocked'', True)]"
  by (simp add: updateStatus_def markInProgress_def markBlocked_def loadBacklog_def
        saveBacklog_def storeOf_def doneBacklog_def mkItem_def Let_def)


section \<open>Properties of the agent state\<close>

lemma map_of_setField:
  "map_of (setField k v props) k' = (if k' = k then Some v else map_of props k')"
  by (induction props) auto

lemma field_defaultState:
  "field (defaultState stamp msg) ''desired_state'' = Some (JStr ''pause'')"
  "field (defaultState stamp msg) ''current_state'' = Some (JStr ''pause'')"
  by (simp_all add: field_def defaultState_def)

lemma validState_pause: "validState (Some (JStr ''pause''))"
  by (simp add: VALID_STATES_def)

lemma validState_not_falsy: "validState v \<Longrightarrow> \<not> falsy v"
  by (cases v rule: validState.cases) (auto simp: VALID_STATES_def)

lemma validState_convertible: "validState v \<Longrightarrow> convertible v"
  by (cases v rule: validState.cases) (auto simp: convertible_def templateText_def)

lemma convertible_cases:
  obtains (prints) s where "convertible v" "templateText v = Inr s"
        | (throws) e where "\<not> convertible v" "templateText v = Inl e"
  by (cases "templateText v") (auto simp: convertible_def)

lemma convertible_primitives:
  "convertible (Some (JStr s))" "convertible (Some (JNum n))" "convertible (Some (JBool b))"
  "convertible (Some (JObj props)) \<longleftrightarrow> map_of props ''toString'' = None"
  by (simp_all add: convertible_def templateText_def)

text \<open>What \<open>readState\<close> returns: the default record, or the stored object with the two
  state fields coerced, the latter only when both fields are truthy and can be shown
  in a warning.\<close>

lemma readState_cases:
  obtains (fallback) msg where "readState stamp et fl = defaultState stamp msg"
      and "fl = Missing \<or> fl = Malformed
           \<or> (\<exists>state. fl = Holds state
                \<and> (falsy (field state ''desired_state'') \<or> falsy (field state ''current_state'')
                   \<or> \<not> convertible (field state ''desired_state'')
                   \<or> \<not> convertible (field state ''current_state'')))"
    | (stored) props where "fl = Holds (JObj props)"
      and "\<not> falsy (map_of props ''desired_state'')"
      and "\<not> falsy (map_of props ''current_state'')"
      and "convertible (map_of props ''desired_state'')"
      and "convertible (map_of props ''current_state'')"
      and "readState stamp et fl =
             JObj ((if validState (map_of props ''current_state'') then (\<lambda>p. p)
                    else setField ''current_state'' (JStr ''pause''))
                   ((if validState (map_of props ''desired_state'') then (\<lambda>p. p)
                     else setField ''desired_state'' (JStr ''pause'')) props))"
proof (cases fl)
  case Missing
  then show ?thesis by (intro fallback) (simp_all add: readState_def)
next
  case Malformed
  then show ?thesis by (intro fallback) (simp_all add: readState_def)
next
  case (Holds state)
  show ?thesis
  proof (cases "\<exists>props. state = JObj props")
    case False
    with Holds show ?thesis
      by (cases state; intro fallback)
         (simp_all add: readState_def readStateBody_def getProp_def field_def)
  next
    case True
    then obtain props where props: "state = JObj props" by blast
    let ?d = "map_of props ''desired_state''"
    let ?c = "map_of props ''current_state''"
    have fd: "field state ''desired_state'' = ?d" and fc: "field state ''current_state'' = ?c"
      by (simp_all add: props field_def)
    show ?thesis
    proof (cases "falsy ?d \<or> falsy ?c")
      case True
      with Holds props show ?thesis
        by (intro fallback)
           (auto simp: readState_def readStateBody_def getProp_def field_def)
    next
      case truthy: False
      show ?thesis
      proof (cases ?d rule: convertible_cases)
        case (throws e)
        then have "\<not> validState ?d" using validState_convertible by blast
        with truthy throws Holds props
        have "readState stamp et fl = defaultState stamp (''Read error: '' @ et e)"
          by (simp add: readState_def readStateBody_def getProp_def)
        with throws(1) Holds fd show ?thesis by (intro fallback) auto
      next
        case dp: (prints s)
        show ?thesis
        proof (cases ?c rule: convertible_cases)
          case (throws e)
          then have "\<not> validState ?c" using validState_convertible by blast
          with truthy throws dp Holds props
          have "readState stamp et fl = defaultState stamp (''Read error: '' @ et e)"
            by (simp add: readState_def readStateBody_def getProp_def setProp_def
                  map_of_setField)
          with throws(1) Holds fc show ?thesis by (intro fallback) auto
        next
          case cp: (prints s')
          with truthy dp Holds props show ?thesis
            by (intro stored [of props])
               (auto simp: readState_def readStateBody_def getProp_def setProp_def
                  map_of_setField)
        qed
      qed
    qed
  qed
qed


text \<open>
  Claim C6, as the code has it. \<open>readState\<close> never raises: every throwing statement sits
  in its \<open>try\<close>, whose handler returns the default record, so for every file it returns
  a record, and both state fields of that record are valid states. A missing or
  unparseable file gives the default record, with \<open>pause\<close> in both fields. An invalid
  value stored in \<open>desired_state\<close> or in \<open>current_state\<close> is never returned: that field
  reads \<open>pause\<close>. When both stored fields are truthy and can be shown in the warning
  (their string conversion does not throw), everything else is returned as stored:
  every other field, and each of the two state fields that holds a valid state. When
  one of the two is absent or falsy (the empty string, 0, false, null), or is an
  invalid value whose string conversion throws, or the parsed value is not an object,
  the whole default record is returned instead, so a valid value in the other field
  is not kept. Strings, numbers and booleans always convert; an object converts
  exactly when it has no \<open>toString\<close> key of its own.
\<close>

theorem readState_coerces_to_pause:
  "(\<exists>props. readState stamp et fl = JObj props)
   \<and> validState (field (readState stamp et fl) ''desired_state'')
   \<and> validState (field (readState stamp et fl) ''current_state'')
   \<and> (fl = Missing \<or> fl = Malformed
        \<longrightarrow> (\<exists>msg. readState stamp et fl = defaultState stamp msg)
          \<and> field (readState stamp et fl) ''desired_state'' = Some (JStr ''pause'')
          \<and> field (readState stamp et fl) ''current_state'' = Some (JStr ''pause''))
   \<and> (\<forall>state. fl = Holds state \<and> \<not> validState (field state ''desired_state'')
          \<longrightarrow> field (readState stamp et fl) ''desired_state'' = Some (JStr ''pause''))
   \<and> (\<forall>state. fl = Holds state \<and> \<not> validState (field state ''current_state'')
          \<longrightarrow> field (readState stamp et fl) ''current_state'' = Some (JStr ''pause''))
   \<and> (\<forall>state. fl = Holds state
            \<and> \<not> falsy (field state ''desired_state'') \<and> \<not> falsy (field state ''current_state'')
            \<and> convertible (field state ''desired_state'')
            \<and> convertible (field state ''current_state'')
          \<longrightarrow> (\<forall>k. k \<noteq> ''desired_state'' \<and> k \<noteq> ''current_state''
                    \<longrightarrow> field (readState stamp et fl) k = field state k)
            \<and> (validState (field state ''desired_state'')
                  \<longrightarrow> field (readState stamp et fl) ''desired_state''
                        = field state ''desired_state'')
            \<and> (validState (field state ''current_state'')
                  \<longrightarrow> field (readState stamp et fl) ''current_state''
                        = field state ''current_state''))
   \<and> (\<forall>state. fl = Holds state
            \<and> (falsy (field state ''desired_state'') \<or> falsy (field state ''current_state'')
               \<or> \<not> convertible (field state ''desired_state'')
               \<or> \<not> convertible (field state ''current_state''))
          \<longrightarrow> (\<exists>msg. readState stamp et fl = defaultState stamp msg))
   \<and> (\<forall>s. convertible (Some (JStr s)))
   \<and> (\<forall>n. convertible (Some (JNum n)))
   \<and> (\<forall>b. convertible (Some (JBool b)))
   \<and> (\<forall>props. convertible (Some (JObj props)) \<longleftrightarrow> map_of props ''toString'' = None)"
proof (cases rule: readState_cases [of stamp et fl])
  case (fallback msg)
  let ?r = "readState stamp et fl"
  have obj: "\<exists>props. ?r = JObj props"
    by (simp add: fallback(1) defaultState_def)
  have fd: "field ?r ''desired_state'' = Some (JStr ''pause'')"
    and fc: "field ?r ''current_state'' = Some (JStr ''pause'')"
    by (simp_all only: fallback(1) field_defaultState)
  have vd: "validState (field ?r ''desired_state'')"
    and vc: "validState (field ?r ''current_state'')"
    by (simp_all only: fd fc validState_pause)
  have dflt: "\<exists>msg. ?r = defaultState stamp msg"
    using fallback(1) by blast
  have no: "\<not> (fl = Holds state
            \<and> \<not> falsy (field state ''desired_state'') \<and> \<not> falsy (field state ''current_state'')
            \<and> convertible (field state ''desired_state'')
            \<and> convertible (field state ''current_state''))"
    for state
    using fallback(2) by auto
  from obj fd fc vd vc dflt no convertible_primitives show ?thesis by blast
next
  case (stored props)
  let ?r = "readState stamp et fl"
  have st: "field (JObj props) k = map_of props k" for k
    by (simp add: field_def)
  have obj: "\<exists>props. ?r = JObj props"
    by (simp add: stored(6))
  have rd: "field ?r ''desired_state''
              = (if validState (map_of props ''desired_state'')
                 then map_of props ''desired_state'' else Some (JStr ''pause''))"
    by (simp add: stored(6) field_def map_of_setField)
  have rc: "field ?r ''current_state''
              = (if validState (map_of props ''current_state'')
                 then map_of props ''current_state'' else Some (JStr ''pause''))"
    by (simp add: stored(6) field_def map_of_setField)
  have other: "field ?r k = map_of props k"
    if "k \<noteq> ''desired_state'' \<and> k \<noteq> ''current_state''" for k
    using that by (simp add: stored(6) field_def map_of_setField)
  have vd: "validState (field ?r ''desired_state'')"
    and vc: "validState (field ?r ''current_state'')"
    by (simp_all add: rd rc VALID_STATES_def)
  have hold: "state = JObj props" if "fl = Holds state" for state
    using that stored(1) by simp
  have nofallback: "\<not> (fl = Holds state
            \<and> (falsy (field state ''desired_state'') \<or> falsy (field state ''current_state'')
               \<or> \<not> convertible (field state ''desired_state'')
               \<or> \<not> convertible (field state ''current_state'')))"
    for state
    using stored(1-5) by (auto simp: field_def)
  have notfile: "\<not> (fl = Missing \<or> fl = Malformed)"
    using stored(1) by simp
  show ?thesis
  proof (intro conjI allI impI)
    show "\<exists>props. ?r = JObj props" by (rule obj)
    show "validState (field ?r ''desired_state'')" by (rule vd)
    show "validState (field ?r ''current_state'')" by (rule vc)
  next
    assume "fl = Missing \<or> fl = Malformed"
    with notfile show "\<exists>msg. ?r = defaultState stamp msg"
      and "field ?r ''desired_state'' = Some (JStr ''pause'')"
      and "field ?r ''current_state'' = Some (JStr ''pause'')"
      by blast+
  next
    fix state
    assume "fl = Holds state \<and> \<not> validState (field state ''desired_state'')"
    then show "field ?r ''desired_state'' = Some (JStr ''pause'')"
      using hold [of state] by (simp add: rd [unfolded stored(1)] st)
  next
    fix state
    assume "fl = Holds state \<and> \<not> validState (field state ''current_state'')"
    then show "field ?r ''current_state'' = Some (JStr ''pause'')"
      using hold [of state] by (simp add: rc [unfolded stored(1)] st)
  next
    fix state k
    assume "fl = Holds state
            \<and> \<not> falsy (field state ''desired_state'') \<and> \<not> falsy (field state ''current_state'')
            \<and> convertible (field state ''desired_state'')
            \<and> convertible (field state ''current_state'')"
      and "k \<noteq> ''desired_state'' \<and> k \<noteq> ''current_state''"
    then show "field ?r k = field state k"
      using hold [of state] other [of k, unfolded stored(1)] by (simp add: st)
  next
    fix state
    assume "fl = Holds state
            \<and> \<not> falsy (field state ''desired_state'') \<and> \<not> falsy (field state ''current_state'')
            \<and> convertible (field state ''desired_state'')
            \<and> convertible (field state ''current_state'')"
      and "validState (field state ''desired_state'')"
    then show "field ?r ''desired_state'' = field state ''desired_state''"
      using hold [of state] by (simp add: rd [unfolded stored(1)] st)
  next
    fix state
    assume "fl = Holds state
            \<and> \<not> falsy (field state ''desired_state'') \<and> \<not> falsy (field state ''current_state'')
            \<and> convertible (field state ''desired_state'')
            \<and> convertible (field state ''current_state'')"
      and "validState (field state ''current_state'')"
    then show "field ?r ''current_state'' = field state ''current_state''"
      using hold [of state] by (simp add: rc [unfolded stored(1)] st)
  next
    fix state
    assume "fl = Holds state
            \<and> (falsy (field state ''desired_state'') \<or> falsy (field state ''current_state'')
               \<or> \<not> convertible (field state ''desired_state'')
               \<or> \<not> convertible (field state ''current_state''))"
    with nofallback [of state] show "\<exists>msg. ?r = defaultState stamp msg" by blast
  next
    fix s show "convertible (Some (JStr s))" by (rule convertible_primitives)
  next
    fix n show "convertible (Some (JNum n))" by (rule convertible_primitives)
  next
    fix b show "convertible (Some (JBool b))" by (rule convertible_primitives)
  next
    fix ps show "convertible (Some (JObj ps)) \<longleftrightarrow> map_of ps ''toString'' = None"
      by (rule convertible_primitives)
  qed
qed

theorem readState_coerces_to_pause_witness:
  "\<not> validState (field scenarioD ''desired_state'')
   \<and> \<not> falsy (field scenarioD ''desired_state'') \<and> \<not> falsy (field scenarioD ''current_state'')
   \<and> convertible (field scenarioD ''desired_state'')
   \<and> convertible (field scenarioD ''current_state'')
   \<and> validState (field scenarioD ''current_state'')
   \<and> field (readState ''2026-01-01T00:00:00Z'' plainErrorText (Holds scenarioD)) ''desired_state''
       = Some (JStr ''pause'')
   \<and> field (readState ''2026-01-01T00:00:00Z'' plainErrorText (Holds scenarioD)) ''current_state''
       = Some (JStr ''continuous'')
   \<and> falsy (field emptyDesired ''desired_state'')
   \<and> (\<exists>msg. readState ''2026-01-01T00:00:00Z'' plainErrorText (Holds emptyDesired)
               = defaultState ''2026-01-01T00:00:00Z'' msg)
   \<and> \<not> falsy (field unprintableDesired ''desired_state'')
   \<and> \<not> convertible (field unprintableDesired ''desired_state'')
   \<and> (\<exists>msg. readState ''2026-01-01T00:00:00Z'' plainErrorText (Holds unprintableDesired)
               = defaultState ''2026-01-01T00:00:00Z'' msg)
   \<and> field (readState ''2026-01-01T00:00:00Z'' plainErrorText Missing) ''desired_state''
       = Some (JStr ''pause'')
   \<and> field (readState ''2026-01-01T00:00:00Z'' plainErrorText Malformed) ''current_state''
       = Some (JStr ''pause'')"
proof -
  let ?t = "''2026-01-01T00:00:00Z''"
  have d: "field scenarioD ''desired_state'' = Some (JStr ''bogus'')"
    and c: "field scenarioD ''current_state'' = Some (JStr ''continuous'')"
    and e: "field emptyDesired ''desired_state'' = Some (JStr [])"
    and u: "field unprintableDesired ''desired_state'' = Some (JObj [(''toString'', JNum 1)])"
    by (simp_all add: field_def scenarioD_def emptyDesired_def unprintableDesired_def)
  have h1: "\<not> validState (field scenarioD ''desired_state'')"
    and h2: "\<not> falsy (field scenarioD ''desired_state'')"
    and h3: "\<not> falsy (field scenarioD ''current_state'')"
    and h4: "validState (field scenarioD ''current_state'')"
    and h5: "falsy (field emptyDesired ''desired_state'')"
    and h6: "\<not> falsy (field unprintableDesired ''desired_state'')"
    by (simp_all add: d c e u VALID_STATES_def)
  note t1 = readState_coerces_to_pause [of ?t plainErrorText "Holds scenarioD"]
  note t2 = readState_coerces_to_pause [of ?t plainErrorText "Holds emptyDesired"]
  note t3 = readState_coerces_to_pause [of ?t plainErrorText Missing]
  note t4 = readState_coerces_to_pause [of ?t plainErrorText Malformed]
  note t5 = readState_coerces_to_pause [of ?t plainErrorText "Holds unprintableDesired"]
  note c2 = conjunct2
  note strs = t1 [THEN c2, THEN c2, THEN c2, THEN c2, THEN c2, THEN c2, THEN c2, THEN c2,
                  THEN conjunct1, rule_format]
  note objs = t1 [THEN c2, THEN c2, THEN c2, THEN c2, THEN c2, THEN c2, THEN c2, THEN c2,
                  THEN c2, THEN c2, THEN c2, rule_format]
  have k1: "convertible (field scenarioD ''desired_state'')"
    and k2: "convertible (field scenarioD ''current_state'')"
    by (simp_all only: d c strs)
  have k3: "\<not> convertible (field unprintableDesired ''desired_state'')"
    by (simp add: u objs)
  from t1 [THEN c2, THEN c2, THEN c2, THEN c2, THEN conjunct1, rule_format, of scenarioD] h1
  have r1: "field (readState ?t plainErrorText (Holds scenarioD)) ''desired_state''
       = Some (JStr ''pause'')" by simp
  from t1 [THEN c2, THEN c2, THEN c2, THEN c2, THEN c2, THEN c2, THEN conjunct1,
           rule_format, of scenarioD, THEN c2, THEN c2] h2 h3 h4 k1 k2
  have "field (readState ?t plainErrorText (Holds scenarioD)) ''current_state''
       = field scenarioD ''current_state''" by simp
  then have r2: "field (readState ?t plainErrorText (Holds scenarioD)) ''current_state''
       = Some (JStr ''continuous'')" by (simp only: c)
  from t2 [THEN c2, THEN c2, THEN c2, THEN c2, THEN c2, THEN c2, THEN c2, THEN conjunct1,
           rule_format, of emptyDesired] h5
  have r3: "\<exists>msg. readState ?t plainErrorText (Holds emptyDesired)
               = defaultState ?t msg" by simp
  from t5 [THEN c2, THEN c2, THEN c2, THEN c2, THEN c2, THEN c2, THEN c2, THEN conjunct1,
           rule_format, of unprintableDesired] k3
  have r6: "\<exists>msg. readState ?t plainErrorText (Holds unprintableDesired)
               = defaultState ?t msg" by simp
  from t3 [THEN c2, THEN c2, THEN c2, THEN conjunct1]
  have r4: "field (readState ?t plainErrorText Missing) ''desired_state''
       = Some (JStr ''pause'')" by simp
  from t4 [THEN c2, THEN c2, THEN c2, THEN conjunct1]
  have r5: "field (readState ?t plainErrorText Malformed) ''current_state''
       = Some (JStr ''pause'')" by simp
  from h1 h2 h3 k1 k2 h4 r1 r2 h5 r3 h6 k3 r6 r4 r5 show ?thesis by (intro conjI)
qed

text \<open>The claim as stated fails where the invalid value is falsy: with the empty
  string in \<open>desired_state\<close>, the valid \<open>continuous\<close> stored in \<open>current_state\<close> is not
  returned as stored but replaced by \<open>pause\<close>.\<close>

theorem readState_empty_desired_counterexample:
  "field emptyDesired ''current_state'' = Some (JStr ''continuous'')
   \<and> field (readState ''2026-01-01T00:00:00Z'' plainErrorText (Holds emptyDesired))
        ''current_state'' = Some (JStr ''pause'')"
  by (simp add: emptyDesired_def readState_def readStateBody_def getProp_def field_def
        defaultState_def)

text \<open>The same happens for a truthy invalid value without a string conversion: the
  valid current state and the note stored beside it are replaced by the default
  record's.\<close>

lemma readState_unprintable_desired:
  "field (readState ''2026-01-01T00:00:00Z'' plainErrorText (Holds unprintableDesired))
        ''current_state'' = Some (JStr ''pause'')
   \<and> field (readState ''2026-01-01T00:00:00Z'' plainErrorText (Holds unprintableDesired))
        ''note'' = Some (JStr ''Read error: Error'')"
  by (simp add: unprintableDesired_def readState_def readStateBody_def getProp_def field_def
        defaultState_def templateText_def VALID_STATES_def plainErrorText_def)

section \<open>Properties of the workflow\<close>

lemma executeStep3_facts:
  "step_number (fst (executeStep3 now n e)) = 3"
  "step_success (fst (executeStep3 now n e))"
  "maxIterations (engine_context (snd (executeStep3 now n e))) = maxIterations (engine_context e)"
  by (simp_all add: executeStep3_def Let_def)

lemma executeStep4_facts:
  "step_number (fst (executeStep4 now w n e)) = 4"
  "maxIterations (engine_context (snd (executeStep4 now w n e))) = maxIterations (engine_context e)"
  by (auto simp: executeStep4_def Let_def split: sum.splits prod.splits)

lemma executeStep4_fails:
  "verificationFails w n \<Longrightarrow> \<not> step_success (fst (executeStep4 now w n e))"
  by (auto simp: executeStep4_def verificationFails_def executeTestPhase_def Let_def
           split: sum.splits prod.splits)

lemma setState_maxIterations:
  "maxIterations (engine_context (setState st e)) = maxIterations (engine_context e)"
  by (simp add: setState_def)

lemma workflowLoop_stop:
  "passedAll \<or> \<not> its < maxIterations (engine_context e)
     \<Longrightarrow> workflowLoop now w e passedAll its acc = (e, passedAll, its, acc)"
  by (subst workflowLoop.simps) auto

text \<open>One pass of the loop body.\<close>

lemma workflowLoop_step:
  assumes "\<not> passedAll" and "its < maxIterations (engine_context e)"
  shows "\<exists>e' ok r3 r4. step_number r3 = 3 \<and> step_number r4 = 4
           \<and> maxIterations (engine_context e') = maxIterations (engine_context e)
           \<and> (verificationFails w (its + 1) \<longrightarrow> \<not> ok)
           \<and> workflowLoop now w e passedAll its acc
               = workflowLoop now w e' ok (its + 1) (acc @ [r3, r4])"
proof -
  let ?e1 = "setState Coding
               (e\<lparr> engine_context := (engine_context e)\<lparr> iterationCount := its + 1 \<rparr> \<rparr>)"
  let ?r3 = "fst (executeStep3 now (its + 1) ?e1)"
  let ?e2 = "snd (executeStep3 now (its + 1) ?e1)"
  let ?e3 = "setState Verifying ?e2"
  let ?r4 = "fst (executeStep4 now w (its + 1) ?e3)"
  let ?e4 = "snd (executeStep4 now w (its + 1) ?e3)"
  let ?ok = "step_success ?r4"
  let ?e' = "if ?ok then setState Completed ?e4 else setState Coding ?e4"
  have m: "maxIterations (engine_context ?e') = maxIterations (engine_context e)"
    by (simp add: setState_maxIterations executeStep4_facts executeStep3_facts)
  have run: "workflowLoop now w e passedAll its acc
               = workflowLoop now w ?e' ?ok (its + 1) (acc @ [?r3, ?r4])"
    using assms
    by (subst workflowLoop.simps) (simp add: Let_def executeStep3_facts)
  have f: "verificationFails w (its + 1) \<longrightarrow> \<not> ?ok"
    by (simp add: executeStep4_fails)
  from m run f show ?thesis
    by (intro exI [of _ ?e'] exI [of _ ?ok] exI [of _ ?r3] exI [of _ ?r4])
       (simp add: executeStep3_facts executeStep4_facts)
qed

text \<open>The loop never runs past the cap: it adds one code step and one verify step per
  iteration and stops with the counter at most at the cap.\<close>

lemma workflowLoop_bounded:
  "\<exists>e' ok its' new. workflowLoop now w e passedAll its acc = (e', ok, its', acc @ new)
       \<and> its \<le> its' \<and> its' \<le> max its (maxIterations (engine_context e))
       \<and> codeSteps new = its' - its \<and> verifySteps new = its' - its
       \<and> length new = 2 * (its' - its)"
proof (induction "maxIterations (engine_context e) - its" arbitrary: e passedAll its acc)
  case 0
  then have "workflowLoop now w e passedAll its acc = (e, passedAll, its, acc)"
    by (intro workflowLoop_stop) simp
  then show ?case by (simp add: codeSteps_def verifySteps_def)
next
  case (Suc k)
  show ?case
  proof (cases passedAll)
    case True
    then have "workflowLoop now w e passedAll its acc = (e, passedAll, its, acc)"
      by (intro workflowLoop_stop) simp
    then show ?thesis by (simp add: codeSteps_def verifySteps_def)
  next
    case False
    from Suc(2) have lt: "its < maxIterations (engine_context e)" by simp
    from workflowLoop_step [OF False lt, of w now acc] obtain e1 ok r3 r4 where
      s: "step_number r3 = 3" "step_number r4 = 4"
         "maxIterations (engine_context e1) = maxIterations (engine_context e)"
         "workflowLoop now w e passedAll its acc
            = workflowLoop now w e1 ok (its + 1) (acc @ [r3, r4])"
      by blast
    from Suc(2) s(3) have "k = maxIterations (engine_context e1) - (its + 1)" by simp
    from Suc(1) [OF this, of ok "acc @ [r3, r4]"] obtain e' ok' its' new where
      r: "workflowLoop now w e1 ok (its + 1) (acc @ [r3, r4]) = (e', ok', its', (acc @ [r3, r4]) @ new)"
         "its + 1 \<le> its'" "its' \<le> max (its + 1) (maxIterations (engine_context e1))"
         "codeSteps new = its' - (its + 1)" "verifySteps new = its' - (its + 1)"
         "length new = 2 * (its' - (its + 1))"
      by blast
    from s r lt show ?thesis
      by (intro exI [of _ e'] exI [of _ ok'] exI [of _ its'] exI [of _ "[r3, r4] @ new"])
         (auto simp: codeSteps_def verifySteps_def)
  qed
qed

text \<open>If every verification up to the cap fails, the loop runs exactly to the cap and
  reports failure, having recorded a code step and a verify step per iteration.\<close>

lemma workflowLoop_all_fail:
  assumes "\<forall>n. its < n \<and> n \<le> maxIterations (engine_context e) \<longrightarrow> verificationFails w n"
    and "its \<le> maxIterations (engine_context e)"
  shows "\<exists>e' new. workflowLoop now w e False its acc
             = (e', False, maxIterations (engine_context e), acc @ new)
         \<and> map step_number new
             = concat (replicate (maxIterations (engine_context e) - its) [3, 4])"
  using assms
proof (induction "maxIterations (engine_context e) - its" arbitrary: e its acc)
  case 0
  then have "its = maxIterations (engine_context e)" by simp
  then have "workflowLoop now w e False its acc = (e, False, its, acc)"
    by (intro workflowLoop_stop) simp
  with \<open>its = maxIterations (engine_context e)\<close> show ?case by simp
next
  case (Suc k)
  from Suc(2) have lt: "its < maxIterations (engine_context e)" by simp
  from workflowLoop_step [of False its e w now acc] lt obtain e1 ok r3 r4 where
    s: "step_number r3 = 3" "step_number r4 = 4"
       "maxIterations (engine_context e1) = maxIterations (engine_context e)"
       "verificationFails w (its + 1) \<longrightarrow> \<not> ok"
       "workflowLoop now w e False its acc
          = workflowLoop now w e1 ok (its + 1) (acc @ [r3, r4])"
    by blast
  from Suc(3) lt have "verificationFails w (its + 1)" by simp
  with s(4) have ok: "\<not> ok" by simp
  from Suc(2) s(3) have k: "k = maxIterations (engine_context e1) - (its + 1)" by simp
  have a: "\<forall>n. its + 1 < n \<and> n \<le> maxIterations (engine_context e1) \<longrightarrow> verificationFails w n"
    using Suc(3) s(3) by simp
  have b: "its + 1 \<le> maxIterations (engine_context e1)" using lt s(3) by simp
  from Suc(1) [OF k a b, of "acc @ [r3, r4]"] obtain e' new where
    r: "workflowLoop now w e1 False (its + 1) (acc @ [r3, r4])
          = (e', False, maxIterations (engine_context e1), (acc @ [r3, r4]) @ new)"
       "map step_number new
          = concat (replicate (maxIterations (engine_context e1) - (its + 1)) [3, 4])"
    by blast
  have "maxIterations (engine_context e) - its = Suc (maxIterations (engine_context e) - (its + 1))"
    using lt by simp
  with s r ok show ?case
    by (intro exI [of _ e'] exI [of _ "[r3, r4] @ new"]) simp
qed


lemma executeStep1_facts:
  "step_number (fst (executeStep1 now w e)) = 1"
  "maxIterations (engine_context (snd (executeStep1 now w e))) = maxIterations (engine_context e)"
  "iterationCount (engine_context (snd (executeStep1 now w e))) = iterationCount (engine_context e)"
  "featureManager (snd (executeStep1 now w e)) = featureManager e"
  "environmentStarts w \<Longrightarrow> step_success (fst (executeStep1 now w e))"
  by (auto simp: executeStep1_def environmentStarts_def split: option.splits)

lemma executeStep2_facts:
  "step_number (fst (executeStep2 now w e)) = 2"
  "maxIterations (engine_context (snd (executeStep2 now w e))) = maxIterations (engine_context e)"
  "iterationCount (engine_context (snd (executeStep2 now w e))) = iterationCount (engine_context e)"
  "featureSelected e \<Longrightarrow> step_success (fst (executeStep2 now w e))"
  by (auto simp: executeStep2_def featureSelected_def split: prod.splits sum.splits option.splits)

lemma setState_facts:
  "iterationCount (engine_context (setState st e)) = iterationCount (engine_context e)"
  "featureManager (setState st e) = featureManager e"
  "featureSelected (setState st e) = featureSelected e"
  by (simp_all add: setState_def featureSelected_def)

text \<open>The three ways \<open>executeWorkflow\<close> ends.\<close>

lemma executeWorkflow_cases:
  obtains (init_failed) r1 where
      "\<not> environmentStarts w" "step_number r1 = 1"
      "\<not> success (fst (executeWorkflow now w e))"
      "\<not> featureCompleted (fst (executeWorkflow now w e))"
      "iterations (fst (executeWorkflow now w e)) = iterationCount (engine_context e)"
      "steps (fst (executeWorkflow now w e)) = [r1]"
  | (select_failed) r1 r2 where
      "\<not> featureSelected e" "step_number r1 = 1" "step_number r2 = 2"
      "\<not> success (fst (executeWorkflow now w e))"
      "\<not> featureCompleted (fst (executeWorkflow now w e))"
      "iterations (fst (executeWorkflow now w e)) = iterationCount (engine_context e)"
      "steps (fst (executeWorkflow now w e)) = [r1, r2]"
  | (looped) r1 r2 e2 e3 ok its new where
      "step_number r1 = 1" "step_number r2 = 2"
      "maxIterations (engine_context e2) = maxIterations (engine_context e)"
      "workflowLoop now w e2 False 0 [r1, r2] = (e3, ok, its, [r1, r2] @ new)"
      "success (fst (executeWorkflow now w e)) = ok"
      "featureCompleted (fst (executeWorkflow now w e)) = ok"
      "iterations (fst (executeWorkflow now w e)) = its"
      "steps (fst (executeWorkflow now w e)) = [r1, r2] @ new"
proof -
  let ?e0 = "setState Initializing e"
  let ?r1 = "fst (executeStep1 now w ?e0)"
  let ?e1 = "snd (executeStep1 now w ?e0)"
  let ?e1' = "setState Selecting ?e1"
  let ?r2 = "fst (executeStep2 now w ?e1')"
  let ?e2 = "snd (executeStep2 now w ?e1')"
  have n1: "step_number ?r1 = 1" and n2: "step_number ?r2 = 2"
    by (simp_all add: executeStep1_facts executeStep2_facts)
  have m: "maxIterations (engine_context ?e2) = maxIterations (engine_context e)"
    by (simp add: executeStep1_facts executeStep2_facts setState_maxIterations)
  have c: "iterationCount (engine_context ?e1) = iterationCount (engine_context e)"
          "iterationCount (engine_context ?e2) = iterationCount (engine_context e)"
    by (simp_all add: executeStep1_facts executeStep2_facts setState_facts)
  have sel: "featureSelected ?e1' = featureSelected e"
    by (simp add: featureSelected_def setState_facts executeStep1_facts)
  show ?thesis
  proof (cases "step_success ?r1")
    case False
    then have "\<not> environmentStarts w" using executeStep1_facts(5) by blast
    with False n1 show ?thesis
      by (intro init_failed [of ?r1])
         (simp_all add: executeWorkflow_def Let_def createFailedResult_def c)
  next
    case s1: True
    show ?thesis
    proof (cases "step_success ?r2")
      case False
      then have "\<not> featureSelected e" using executeStep2_facts(4) sel by blast
      with False s1 n1 n2 show ?thesis
        by (intro select_failed [of ?r1 ?r2])
           (simp_all add: executeWorkflow_def Let_def createFailedResult_def c)
    next
      case s2: True
      from workflowLoop_bounded [of now w ?e2 False 0 "[?r1, ?r2]"]
      obtain e3 ok its new where
        l: "workflowLoop now w ?e2 False 0 [?r1, ?r2] = (e3, ok, its, [?r1, ?r2] @ new)"
        by blast
      with s1 s2 n1 n2 m show ?thesis
        by (intro looped [of ?r1 ?r2 ?e2 e3 ok its new])
           (simp_all add: executeWorkflow_def Let_def)
    qed
  qed
qed

lemma executeWorkflow_counts:
  "codeSteps (steps (fst (executeWorkflow now w e))) \<le> maxIterations (engine_context e)"
  "verifySteps (steps (fst (executeWorkflow now w e))) \<le> maxIterations (engine_context e)"
  "iterationCount (engine_context e) \<le> maxIterations (engine_context e)
     \<Longrightarrow> iterations (fst (executeWorkflow now w e)) \<le> maxIterations (engine_context e)"
proof -
  have "codeSteps (steps (fst (executeWorkflow now w e))) \<le> maxIterations (engine_context e)
      \<and> verifySteps (steps (fst (executeWorkflow now w e))) \<le> maxIterations (engine_context e)
      \<and> (iterationCount (engine_context e) \<le> maxIterations (engine_context e)
          \<longrightarrow> iterations (fst (executeWorkflow now w e)) \<le> maxIterations (engine_context e))"
  proof (cases rule: executeWorkflow_cases [of w now e])
    case (init_failed r1)
    then show ?thesis by (simp add: codeSteps_def verifySteps_def)
  next
    case (select_failed r1 r2)
    then show ?thesis by (simp add: codeSteps_def verifySteps_def)
  next
    case (looped r1 r2 e2 e3 ok its new)
    from workflowLoop_bounded [of now w e2 False 0 "[r1, r2]"] looped(4)
    have "its \<le> maxIterations (engine_context e2)"
      "codeSteps new = its" "verifySteps new = its"
      by auto
    with looped show ?thesis by (simp add: codeSteps_def verifySteps_def)
  qed
  then show
    "codeSteps (steps (fst (executeWorkflow now w e))) \<le> maxIterations (engine_context e)"
    "verifySteps (steps (fst (executeWorkflow now w e))) \<le> maxIterations (engine_context e)"
    "iterationCount (engine_context e) \<le> maxIterations (engine_context e)
       \<Longrightarrow> iterations (fst (executeWorkflow now w e)) \<le> maxIterations (engine_context e)"
    by blast+
qed

lemma executeWorkflow_all_fail:
  assumes "environmentStarts w" and "featureSelected e"
    and "\<forall>n. 1 \<le> n \<and> n \<le> maxIterations (engine_context e) \<longrightarrow> verificationFails w n"
  shows "\<not> success (fst (executeWorkflow now w e))"
    and "\<not> featureCompleted (fst (executeWorkflow now w e))"
    and "iterations (fst (executeWorkflow now w e)) = maxIterations (engine_context e)"
    and "map step_number (steps (fst (executeWorkflow now w e)))
           = [1, 2] @ concat (replicate (maxIterations (engine_context e)) [3, 4])"
proof -
  have "\<not> success (fst (executeWorkflow now w e))
      \<and> \<not> featureCompleted (fst (executeWorkflow now w e))
      \<and> iterations (fst (executeWorkflow now w e)) = maxIterations (engine_context e)
      \<and> map step_number (steps (fst (executeWorkflow now w e)))
           = [1, 2] @ concat (replicate (maxIterations (engine_context e)) [3, 4])"
  proof (cases rule: executeWorkflow_cases [of w now e])
    case (init_failed r1)
    with assms(1) show ?thesis by simp
  next
    case (select_failed r1 r2)
    with assms(2) show ?thesis by simp
  next
    case (looped r1 r2 e2 e3 ok its new)
    have "\<forall>n. 0 < n \<and> n \<le> maxIterations (engine_context e2) \<longrightarrow> verificationFails w n"
      using assms(3) looped(3) by (simp add: Suc_le_eq)
    from workflowLoop_all_fail [OF this, of now "[r1, r2]"] looped(3,4)
    have "\<not> ok" "its = maxIterations (engine_context e)"
      "map step_number new = concat (replicate (maxIterations (engine_context e)) [3, 4])"
      by auto
    with looped show ?thesis by simp
  qed
  then show "\<not> success (fst (executeWorkflow now w e))"
    and "\<not> featureCompleted (fst (executeWorkflow now w e))"
    and "iterations (fst (executeWorkflow now w e)) = maxIterations (engine_context e)"
    and "map step_number (steps (fst (executeWorkflow now w e)))
           = [1, 2] @ concat (replicate (maxIterations (engine_context e)) [3, 4])"
    by blast+
qed


lemma scenarioE_facts:
  "environmentStarts scenarioE" "verificationFails scenarioE n"
  by (simp_all add: environmentStarts_def verificationFails_def scenarioE_def brokenBuild_def)

lemma scenarioA_selected:
  "featureSelected (newWorkflowEngine root (managerHolding scenarioA) arg sid t)"
  by (simp add: featureSelected_def newWorkflowEngine_def getNextIncompleteFeature_def
        loadFeatureList_def managerHolding_def listOf_def nextIncompleteOf_def
        incompleteFeatures_def scenarioA_def mkFeature_def areDependenciesMet_def Let_def)

lemma newWorkflowEngine_cap:
  "maxIterations (engine_context (newWorkflowEngine root fm arg sid t)) = 3"
  "iterationCount (engine_context (newWorkflowEngine root fm arg sid t)) = 0"
  by (simp_all add: newWorkflowEngine_def createInitialContext_def)

text \<open>
  Claim C4. \<open>executeWorkflow\<close> returns a result for every engine and every environment
  (each throwing statement of its steps sits in a \<open>try\<close> that turns the error into a
  failed step record, so nothing is raised), and its retry loop is bounded by the cap
  of the context: the result holds at most \<open>maxIterations\<close> code records and at most
  \<open>maxIterations\<close> verify records, and its \<open>iterations\<close> is at most the cap (given a
  context whose counter is not already past it, as after construction). If steps 1
  and 2 succeed and every verification up to the cap fails, the result reports
  failure with \<open>iterations\<close> equal to the cap, and its records are init, select and
  then a code and a verify record per iteration: with cap 3, eight records.
\<close>

theorem executeWorkflow_retry_bound:
  "codeSteps (steps (fst (executeWorkflow now w e))) \<le> maxIterations (engine_context e)
   \<and> verifySteps (steps (fst (executeWorkflow now w e))) \<le> maxIterations (engine_context e)
   \<and> (iterationCount (engine_context e) \<le> maxIterations (engine_context e)
        \<longrightarrow> iterations (fst (executeWorkflow now w e)) \<le> maxIterations (engine_context e))
   \<and> (environmentStarts w \<and> featureSelected e
        \<and> (\<forall>n. 1 \<le> n \<and> n \<le> maxIterations (engine_context e) \<longrightarrow> verificationFails w n)
        \<longrightarrow> \<not> success (fst (executeWorkflow now w e))
          \<and> \<not> featureCompleted (fst (executeWorkflow now w e))
          \<and> iterations (fst (executeWorkflow now w e)) = maxIterations (engine_context e)
          \<and> map step_number (steps (fst (executeWorkflow now w e)))
              = [1, 2] @ concat (replicate (maxIterations (engine_context e)) [3, 4]))"
proof (intro conjI impI)
  show "codeSteps (steps (fst (executeWorkflow now w e))) \<le> maxIterations (engine_context e)"
    by (rule executeWorkflow_counts)
  show "verifySteps (steps (fst (executeWorkflow now w e))) \<le> maxIterations (engine_context e)"
    by (rule executeWorkflow_counts)
next
  assume "iterationCount (engine_context e) \<le> maxIterations (engine_context e)"
  then show "iterations (fst (executeWorkflow now w e)) \<le> maxIterations (engine_context e)"
    by (rule executeWorkflow_counts)
next
  assume a: "environmentStarts w \<and> featureSelected e
        \<and> (\<forall>n. 1 \<le> n \<and> n \<le> maxIterations (engine_context e) \<longrightarrow> verificationFails w n)"
  then have s: "environmentStarts w" and f: "featureSelected e"
    and v: "\<forall>n. 1 \<le> n \<and> n \<le> maxIterations (engine_context e) \<longrightarrow> verificationFails w n"
    by blast+
  show "\<not> success (fst (executeWorkflow now w e))"
    by (rule executeWorkflow_all_fail [OF s f v])
  show "\<not> featureCompleted (fst (executeWorkflow now w e))"
    by (rule executeWorkflow_all_fail [OF s f v])
  show "iterations (fst (executeWorkflow now w e)) = maxIterations (engine_context e)"
    by (rule executeWorkflow_all_fail [OF s f v])
  show "map step_number (steps (fst (executeWorkflow now w e)))
              = [1, 2] @ concat (replicate (maxIterations (engine_context e)) [3, 4])"
    by (rule executeWorkflow_all_fail [OF s f v])
qed

theorem executeWorkflow_retry_bound_witness:
  "maxIterations (engine_context defaultEngine) = 3
   \<and> iterationCount (engine_context defaultEngine) \<le> maxIterations (engine_context defaultEngine)
   \<and> environmentStarts scenarioE \<and> featureSelected defaultEngine
   \<and> verificationFails scenarioE 1 \<and> verificationFails scenarioE 2
   \<and> verificationFails scenarioE 3
   \<and> \<not> success (fst (executeWorkflow 0 scenarioE defaultEngine))
   \<and> iterations (fst (executeWorkflow 0 scenarioE defaultEngine)) = 3
   \<and> map step_number (steps (fst (executeWorkflow 0 scenarioE defaultEngine)))
       = [1, 2, 3, 4, 3, 4, 3, 4]
   \<and> length (steps (fst (executeWorkflow 0 scenarioE defaultEngine))) = 8
   \<and> codeSteps (steps (fst (executeWorkflow 0 scenarioE defaultEngine))) \<le> 3
   \<and> verifySteps (steps (fst (executeWorkflow 0 scenarioE defaultEngine))) \<le> 3"
proof -
  let ?r = "fst (executeWorkflow 0 scenarioE defaultEngine)"
  have cap: "maxIterations (engine_context defaultEngine) = 3"
    and cnt: "iterationCount (engine_context defaultEngine)
                \<le> maxIterations (engine_context defaultEngine)"
    by (simp_all add: defaultEngine_def newWorkflowEngine_cap)
  have env: "environmentStarts scenarioE" by (rule scenarioE_facts)
  have sel: "featureSelected defaultEngine"
    unfolding defaultEngine_def by (rule scenarioA_selected)
  have fails: "\<forall>n. 1 \<le> n \<and> n \<le> maxIterations (engine_context defaultEngine)
                 \<longrightarrow> verificationFails scenarioE n"
    by (simp add: scenarioE_facts)
  note t = executeWorkflow_retry_bound [of 0 scenarioE defaultEngine]
  note c2 = conjunct2
  from t [THEN conjunct1] have b3: "codeSteps (steps ?r) \<le> 3" by (simp only: cap)
  from t [THEN c2, THEN conjunct1] have b4: "verifySteps (steps ?r) \<le> 3" by (simp only: cap)
  from t [THEN c2, THEN c2, THEN c2, rule_format] env sel fails
  have r: "\<not> success ?r" "iterations ?r = maxIterations (engine_context defaultEngine)"
    "map step_number (steps ?r)
       = [1, 2] @ concat (replicate (maxIterations (engine_context defaultEngine)) [3, 4])"
    by blast+
  from r(2) have its: "iterations ?r = 3" by (simp only: cap)
  from r(3) have recs: "map step_number (steps ?r) = [1, 2, 3, 4, 3, 4, 3, 4]"
    by (simp add: cap numeral_3_eq_3)
  from arg_cong [OF recs, of length] have len: "length (steps ?r) = 8" by simp
  from cap cnt env sel scenarioE_facts(2) r(1) its recs len b3 b4
  show ?thesis by (intro conjI)
qed

text \<open>
  Claim C5 at a concrete engine. The constructor is asked for a cap of one iteration,
  yet the context it builds has the cap 3, and with the build check failing in every
  test phase the workflow runs three code-then-verify cycles, not one.
\<close>

theorem single_iteration_engine_runs_three_cycles:
  "maxIterations (engine_context singleShotEngine) = 3
   \<and> iterations (fst (executeWorkflow 0 scenarioE singleShotEngine)) = 3
   \<and> map step_number (steps (fst (executeWorkflow 0 scenarioE singleShotEngine)))
       = [1, 2, 3, 4, 3, 4, 3, 4]
   \<and> codeSteps (steps (fst (executeWorkflow 0 scenarioE singleShotEngine))) = 3"
proof -
  let ?r = "fst (executeWorkflow 0 scenarioE singleShotEngine)"
  have cap: "maxIterations (engine_context singleShotEngine) = 3"
    by (simp add: singleShotEngine_def newWorkflowEngine_cap)
  have sel: "featureSelected singleShotEngine"
    unfolding singleShotEngine_def by (rule scenarioA_selected)
  have fails: "\<forall>n. 1 \<le> n \<and> n \<le> maxIterations (engine_context singleShotEngine)
                 \<longrightarrow> verificationFails scenarioE n"
    by (simp add: scenarioE_facts)
  note run = executeWorkflow_all_fail [OF scenarioE_facts(1) sel fails, of 0]
  from run(3) have its: "iterations ?r = 3" by (simp only: cap)
  from run(4) have recs: "map step_number (steps ?r) = [1, 2, 3, 4, 3, 4, 3, 4]"
    by (simp add: cap numeral_3_eq_3)
  have "codeSteps (steps ?r) = length (filter (\<lambda>n. n = 3) (map step_number (steps ?r)))"
    by (simp add: codeSteps_def filter_map comp_def)
  also have "\<dots> = 3" by (simp add: recs)
  finally have cs: "codeSteps (steps ?r) = 3" .
  from cap its recs cs show ?thesis by (intro conjI)
qed

end
